theory Spec2Isabelle
  imports Complex_Main "HOL-Library.Word" "HOL-Library.Monad_Syntax" "HOL-Library.Log_Nat"
begin

unbundle bit_operations_syntax

section \<open>Shared type definitions (core/types.ts)\<close>

text \<open>
  JavaScript numbers are modelled as \<open>real\<close> where the code computes with
  fractions (queues, payload, credits, seconds) and as \<open>nat\<close> where the code only ever
  counts (levels, tick counter, completion counters). String-keyed records
  (\<open>Record<string, number>\<close>) are maps, and \<open>x ?? 0\<close> is a lookup with a default.
\<close>

datatype ModuleType = decrypt | checksum | compress | tag

datatype ProtocolFamily = burst | secure | legacy

datatype Tier = low | mid | high

record ResourcePool =
  scrap :: real
  payload :: real
  credits :: real
  fragments :: real

record ModuleInfo =
  mod_type :: ModuleType
  level :: nat

record LaneState =
  lane_id :: nat
  queue :: real
  heat :: real
  enabledModules :: "ModuleType list"

record ContractState =
  cid :: string
  cname :: string
  description :: string
  protocol :: ProtocolFamily
  targetPayload :: real
  timeLimitSec :: "real option"
  rewardCredits :: real
  rewardFragments :: real
  progressPayload :: real
  tier :: Tier
  active :: bool
  expired :: bool
  timeRemainingS :: "real option"

record MetaProgress =
  prestigeCount :: nat
  totalReputation :: int
  spentReputation :: int
  perks :: "string \<rightharpoonup> nat"

record Stats =
  totalPayloadProduced :: real
  totalCreditsEarned :: real
  playtimeSec :: real
  prestigeReadyAt :: "nat option"

record GameState =
  version :: nat
  lastTickTime :: real
  resources :: ResourcePool
  lanes :: "LaneState list"
  modules :: "ModuleType \<Rightarrow> ModuleInfo"
  activeProtocol :: ProtocolFamily
  upgradesPurchased :: "string \<rightharpoonup> nat"
  contracts :: "ContractState list"
  activeContractId :: "string option"
  completedContractCount :: nat
  highTierContractsCompleted :: nat
  protocolsUsed :: "ProtocolFamily set"
  meta :: MetaProgress
  stats :: Stats
  tickCount :: nat

text \<open>\<open>m[k] ?? 0\<close> on a string-keyed record of levels.\<close>

definition lookup0 :: "(string \<rightharpoonup> nat) \<Rightarrow> string \<Rightarrow> nat" where
  "lookup0 m k = (case m k of None \<Rightarrow> 0 | Some v \<Rightarrow> v)"

section \<open>Content catalogs (content/protocols.ts, content/modules.ts, content/contracts.ts)\<close>

text \<open>Display-only fields (name, description) of the protocol and module catalogs are left out.\<close>

record ProtocolDefinition =
  throughputMultiplier :: real
  creditMultiplier :: real
  fragmentsPerHundredTicks :: real
  requiredModules :: "ModuleType list"
  switchCost :: real

fun PROTOCOL_DEFINITIONS :: "ProtocolFamily \<Rightarrow> ProtocolDefinition" where
  "PROTOCOL_DEFINITIONS burst =
     \<lparr>throughputMultiplier = 1.4, creditMultiplier = 0.9, fragmentsPerHundredTicks = 3,
      requiredModules = [], switchCost = 0\<rparr>"
| "PROTOCOL_DEFINITIONS secure =
     \<lparr>throughputMultiplier = 0.8, creditMultiplier = 1.5, fragmentsPerHundredTicks = 8,
      requiredModules = [checksum], switchCost = 100\<rparr>"
| "PROTOCOL_DEFINITIONS legacy =
     \<lparr>throughputMultiplier = 1.0, creditMultiplier = 1.2, fragmentsPerHundredTicks = 6,
      requiredModules = [tag], switchCost = 75\<rparr>"

record ModuleDefinition =
  unlockCost :: real
  baseCapacityBonus :: real
  baseOutputMultiplier :: real
  capacityPerLevel :: real
  outputMultPerLevel :: real

fun MODULE_DEFINITIONS :: "ModuleType \<Rightarrow> ModuleDefinition" where
  "MODULE_DEFINITIONS decrypt =
     \<lparr>unlockCost = 0, baseCapacityBonus = 5, baseOutputMultiplier = 1.0,
      capacityPerLevel = 2.5, outputMultPerLevel = 0.08\<rparr>"
| "MODULE_DEFINITIONS checksum =
     \<lparr>unlockCost = 50, baseCapacityBonus = 3, baseOutputMultiplier = 1.1,
      capacityPerLevel = 1.5, outputMultPerLevel = 0.06\<rparr>"
| "MODULE_DEFINITIONS compress =
     \<lparr>unlockCost = 80, baseCapacityBonus = 4, baseOutputMultiplier = 1.15,
      capacityPerLevel = 2.0, outputMultPerLevel = 0.1\<rparr>"
| "MODULE_DEFINITIONS tag =
     \<lparr>unlockCost = 60, baseCapacityBonus = 2, baseOutputMultiplier = 1.05,
      capacityPerLevel = 1.0, outputMultPerLevel = 0.05\<rparr>"

record ContractTemplate =
  t_id :: string
  t_name :: string
  t_description :: string
  t_protocol :: ProtocolFamily
  t_targetPayload :: real
  t_timeLimitSec :: "real option"
  t_rewardCredits :: real
  t_rewardFragments :: real
  t_tier :: Tier
  minPrestige :: nat

definition CONTRACT_TEMPLATES :: "ContractTemplate list" where
  "CONTRACT_TEMPLATES = [
    \<lparr>t_id = ''tpl_burst_low_1'', t_name = ''Helios Transit: Local Relay'',
     t_description = ''Route basic packet stream for Helios Transit local exchange.'',
     t_protocol = burst, t_targetPayload = 500, t_timeLimitSec = Some 300,
     t_rewardCredits = 200, t_rewardFragments = 0, t_tier = low, minPrestige = 0\<rparr>,
    \<lparr>t_id = ''tpl_burst_low_2'', t_name = ''Civic Mesh: Standard Upload'',
     t_description = ''Process standard civic mesh upload packets.'',
     t_protocol = burst, t_targetPayload = 800, t_timeLimitSec = None,
     t_rewardCredits = 280, t_rewardFragments = 1, t_tier = low, minPrestige = 0\<rparr>,
    \<lparr>t_id = ''tpl_secure_low_1'', t_name = ''Civic Mesh: Integrity Run'',
     t_description = ''Certified payload run for civic mesh integrity protocol.'',
     t_protocol = secure, t_targetPayload = 400, t_timeLimitSec = Some 300,
     t_rewardCredits = 350, t_rewardFragments = 1, t_tier = low, minPrestige = 0\<rparr>,
    \<lparr>t_id = ''tpl_legacy_low_1'', t_name = ''Archivist Ring: Archive Restore'',
     t_description = ''Restore legacy archive packets with proper tagging.'',
     t_protocol = legacy, t_targetPayload = 600, t_timeLimitSec = None,
     t_rewardCredits = 300, t_rewardFragments = 2, t_tier = low, minPrestige = 0\<rparr>,
    \<lparr>t_id = ''tpl_burst_mid_1'', t_name = ''Helios Transit: Regional Burst'',
     t_description = ''High-volume regional packet burst for Helios Transit.'',
     t_protocol = burst, t_targetPayload = 2000, t_timeLimitSec = Some 600,
     t_rewardCredits = 700, t_rewardFragments = 2, t_tier = mid, minPrestige = 0\<rparr>,
    \<lparr>t_id = ''tpl_secure_mid_1'', t_name = ''Noctilux: Premium Transfer'',
     t_description = ''High-value secure transfer with certification required.'',
     t_protocol = secure, t_targetPayload = 1500, t_timeLimitSec = Some 500,
     t_rewardCredits = 900, t_rewardFragments = 3, t_tier = mid, minPrestige = 0\<rparr>,
    \<lparr>t_id = ''tpl_legacy_mid_1'', t_name = ''Archivist Ring: Deep Archive'',
     t_description = ''Deep archive restoration requiring full legacy compliance.'',
     t_protocol = legacy, t_targetPayload = 1800, t_timeLimitSec = None,
     t_rewardCredits = 800, t_rewardFragments = 4, t_tier = mid, minPrestige = 0\<rparr>,
    \<lparr>t_id = ''tpl_burst_high_1'', t_name = ''Helios Transit: Shard Burst'',
     t_description = ''Inter-shard burst protocol - maximum throughput required.'',
     t_protocol = burst, t_targetPayload = 5000, t_timeLimitSec = Some 900,
     t_rewardCredits = 2000, t_rewardFragments = 5, t_tier = high, minPrestige = 0\<rparr>,
    \<lparr>t_id = ''tpl_secure_high_1'', t_name = ''Noctilux: Blackline Contract'',
     t_description = ''Gray-market secure transfer with premium certification.'',
     t_protocol = secure, t_targetPayload = 4000, t_timeLimitSec = Some 800,
     t_rewardCredits = 2500, t_rewardFragments = 8, t_tier = high, minPrestige = 0\<rparr>,
    \<lparr>t_id = ''tpl_legacy_high_1'', t_name = ''Archivist Ring: Shard Restoration'',
     t_description = ''Cross-shard archive restoration. Long-haul, high reward.'',
     t_protocol = legacy, t_targetPayload = 4500, t_timeLimitSec = None,
     t_rewardCredits = 2200, t_rewardFragments = 10, t_tier = high, minPrestige = 1\<rparr>]"

section \<open>Binary64 arithmetic\<close>

text \<open>
  The numbers of the program are IEEE-754 binary64 values. A finite one is an integer of at
  most 53 bits times a power of two \<open>2^(e - 52)\<close>, the exponent \<open>e\<close> of a normal number being
  its binade \<open>\<lfloor>log\<^sub>2 |x|\<rfloor>\<close> and that of a subnormal number -1022. Every arithmetic operation
  and every decimal literal yields the exact value rounded to the nearest such number, a tie
  going to the even integer. The largest exponent is 1023 and the largest finite number
  \<open>double_max\<close>: where the nearest number would lie above it, the program gets Infinity
  and \<open>fl\<close> rounds as if the exponent range were unbounded. The one use of \<open>fl\<close>, the
  penalty of \<open>calculateLatency\<close>, is shown below to stay within the finite numbers.
\<close>

definition pow2 :: "int \<Rightarrow> real" where
  "pow2 e = (if 0 \<le> e then 2 ^ nat e else 1 / 2 ^ nat (- e))"

definition binade :: "real \<Rightarrow> int" where
  "binade x =
     max (- 1022)
       (if 1 \<le> \<bar>x\<bar> then bitlen \<lfloor>\<bar>x\<bar>\<rfloor> - 1 else - bitlen (\<lceil>1 / \<bar>x\<bar>\<rceil> - 1))"

definition round_half_even :: "real \<Rightarrow> int" where
  "round_half_even y =
     (let n = \<lfloor>y\<rfloor>; f = y - of_int n in
      if f < 1 / 2 then n
      else if 1 / 2 < f then n + 1
      else if even n then n else n + 1)"

definition fl :: "real \<Rightarrow> real" where
  "fl x = (let u = pow2 (binade x - 52) in of_int (round_half_even (x / u)) * u)"

definition double_max :: real where
  "double_max = (2 ^ 53 - 1) * pow2 971"

section \<open>Latency model (core/latency.ts)\<close>

text \<open>
  \<open>calculateLatency\<close> is given twice. The first definition reads the arithmetic of the
  function exactly, over the reals; it is the one the tick is built on, and what is proved
  about the tick (which object is assigned, in which order, how often) does not turn on the
  last bit of a product. The second one, \<open>calculateLatency_penalty_f64\<close>, is the penalty with
  the arithmetic of the program, every literal and every operation rounded to binary64; the
  bounds and the monotonicity of the penalty are stated about it.
\<close>

record LatencyInfo =
  latencyMs :: real
  penalty :: real

definition calculateLatency :: "real \<Rightarrow> real \<Rightarrow> real \<Rightarrow> real \<Rightarrow> LatencyInfo" where
  "calculateLatency activeModuleCount queueSize queueTolerance latencyReductionPct =
     (let effectiveQueue = max 0 (queueSize - queueTolerance);
          ms = 10 + activeModuleCount * 5 + effectiveQueue * 0.5;
          depthPenalty = 0.06 * max 0 (activeModuleCount - 3);
          queuePenalty = 0.0008 * effectiveQueue;
          rawPenalty = max 0.1 (1 - depthPenalty - queuePenalty);
          p = min 1 (rawPenalty + latencyReductionPct * (1 - rawPenalty))
      in \<lparr>latencyMs = ms, penalty = p\<rparr>)"

text \<open>
  The penalty as the program computes it. \<open>Math.max\<close>, \<open>Math.min\<close> and the constants 0, 1
  and 3 are exact. (The \<open>latencyMs\<close> field, which is only displayed, is left out: it is the
  one value of the function that can overflow.)
\<close>

definition calculateLatency_penalty_f64 :: "real \<Rightarrow> real \<Rightarrow> real \<Rightarrow> real \<Rightarrow> real" where
  "calculateLatency_penalty_f64 activeModuleCount queueSize queueTolerance latencyReductionPct =
     (let effectiveQueue = max 0 (fl (queueSize - queueTolerance));
          depthPenalty = fl (fl 0.06 * max 0 (fl (activeModuleCount - 3)));
          queuePenalty = fl (fl 0.0008 * effectiveQueue);
          rawPenalty = max (fl 0.1) (fl (fl (1 - depthPenalty) - queuePenalty))
      in min 1 (fl (rawPenalty + fl (latencyReductionPct * fl (1 - rawPenalty)))))"

section \<open>Throughput model (core/pipeline.ts)\<close>

record LaneThroughput =
  processingCapacity :: real
  outputMultiplier :: real
  activeModuleCount :: nat

text \<open>One iteration of the loop over \<open>lane.enabledModules\<close>; a locked module is skipped.\<close>

definition moduleStep :: "GameState \<Rightarrow> LaneThroughput \<Rightarrow> ModuleType \<Rightarrow> LaneThroughput" where
  "moduleStep state acc modType =
     (let modInfo = modules state modType in
      if level modInfo = 0 then acc
      else
        let def = MODULE_DEFINITIONS modType;
            lv = real (level modInfo)
        in \<lparr>processingCapacity =
              processingCapacity acc + (baseCapacityBonus def + capacityPerLevel def * (lv - 1)),
            outputMultiplier =
              outputMultiplier acc * (baseOutputMultiplier def + outputMultPerLevel def * (lv - 1)),
            activeModuleCount = activeModuleCount acc + 1\<rparr>)"

definition calculateLaneThroughput :: "LaneState \<Rightarrow> GameState \<Rightarrow> LaneThroughput" where
  "calculateLaneThroughput lane state =
     (let t0 = foldl (moduleStep state)
                 \<lparr>processingCapacity = 3, outputMultiplier = 1, activeModuleCount = 0\<rparr>
                 (enabledModules lane);
          speedLevel = lookup0 (upgradesPurchased state) ''hw_module_speed'';
          cap1 = processingCapacity t0 + real speedLevel * 2;
          protoDef = PROTOCOL_DEFINITIONS (activeProtocol state);
          cap2 = cap1 * throughputMultiplier protoDef;
          isCompliant = list_all
              (\<lambda>m. List.member (enabledModules lane) m \<and> level (modules state m) > 0)
              (requiredModules protoDef);
          out1 = (if \<not> isCompliant \<and> length (requiredModules protoDef) > 0
                  then outputMultiplier t0 * 0.5 else outputMultiplier t0);
          throughputPerk = lookup0 (perks (meta state)) ''perk_throughput_boost''
      in if throughputPerk > 0
         then \<lparr>processingCapacity = cap2 * (1 + real throughputPerk * 0.1),
               outputMultiplier = out1 * (1 + real throughputPerk * 0.05),
               activeModuleCount = activeModuleCount t0\<rparr>
         else \<lparr>processingCapacity = cap2, outputMultiplier = out1,
               activeModuleCount = activeModuleCount t0\<rparr>)"

definition calculateScrapGenRate :: "GameState \<Rightarrow> real" where
  "calculateScrapGenRate state =
     (let rate0 = 5 * real (length (lanes state));
          routingLevel = lookup0 (upgradesPurchased state) ''sw_routing_ai'';
          rate1 = rate0 * (1 + real routingLevel * 0.15);
          throughputPerk = lookup0 (perks (meta state)) ''perk_throughput_boost''
      in if throughputPerk > 0 then rate1 * (1 + real throughputPerk * 0.1) else rate1)"

definition calculateCreditRate :: "GameState \<Rightarrow> real" where
  "calculateCreditRate state =
     (let rate0 = creditMultiplier (PROTOCOL_DEFINITIONS (activeProtocol state));
          parserLevel = lookup0 (upgradesPurchased state) ''sw_protocol_parser'';
          rate1 = rate0 * (1 + real parserLevel * 0.1);
          creditPerk = lookup0 (perks (meta state)) ''perk_credit_multiplier''
      in if creditPerk > 0 then rate1 * 1.2 else rate1)"

text \<open>\<open>Math.round\<close> rounds to the nearest integer, halves upwards.\<close>

definition js_round :: "real \<Rightarrow> int" where
  "js_round x = \<lfloor>x + 1 / 2\<rfloor>"

definition calculateFragmentInterval :: "GameState \<Rightarrow> int" where
  "calculateFragmentInterval state =
     (let protoDef = PROTOCOL_DEFINITIONS (activeProtocol state);
          interval0 = js_round (100 / fragmentsPerHundredTicks protoDef);
          minerLevel = lookup0 (upgradesPurchased state) ''sw_fragment_miner'';
          interval1 = max 5 (interval0 - int minerLevel * 8);
          surgePerk = lookup0 (perks (meta state)) ''perk_fragment_surge''
      in max 5 (interval1 - int surgePerk * 5))"

section \<open>Initial state and contract board (state/gameState.ts)\<close>

definition createLane :: "nat \<Rightarrow> LaneState" where
  "createLane i = \<lparr>lane_id = i, queue = 0, heat = 0, enabledModules = [decrypt]\<rparr>"

fun initialModules :: "ModuleType \<Rightarrow> ModuleInfo" where
  "initialModules decrypt = \<lparr>mod_type = decrypt, level = 1\<rparr>"
| "initialModules checksum = \<lparr>mod_type = checksum, level = 0\<rparr>"
| "initialModules compress = \<lparr>mod_type = compress, level = 0\<rparr>"
| "initialModules tag = \<lparr>mod_type = tag, level = 0\<rparr>"

text \<open>
  \<open>createInitialState\<close> reads the wall clock (\<open>Date.now()\<close>) for \<open>lastTickTime\<close>; the
  reading is the explicit argument \<open>now\<close>.
\<close>

definition createInitialState :: "real \<Rightarrow> GameState" where
  "createInitialState now =
     \<lparr>version = 1,
      lastTickTime = now,
      resources = \<lparr>scrap = 0, payload = 0, credits = 0, fragments = 0\<rparr>,
      lanes = [createLane 0],
      modules = initialModules,
      activeProtocol = burst,
      upgradesPurchased = Map.empty,
      contracts = [],
      activeContractId = None,
      completedContractCount = 0,
      highTierContractsCompleted = 0,
      protocolsUsed = {burst},
      meta = \<lparr>prestigeCount = 0, totalReputation = 0, spentReputation = 0, perks = Map.empty\<rparr>,
      stats = \<lparr>totalPayloadProduced = 0, totalCreditsEarned = 0, playtimeSec = 0,
               prestigeReadyAt = None\<rparr>,
      tickCount = 0\<rparr>"

text \<open>Decimal rendering of an integer, as string concatenation with a number produces it.\<close>

definition digit_char :: "nat \<Rightarrow> char" where
  "digit_char n = ''0123456789'' ! (n mod 10)"

fun show_nat :: "nat \<Rightarrow> string" where
  "show_nat n = (if n < 10 then [digit_char n] else show_nat (n div 10) @ [digit_char n])"

declare show_nat.simps [simp del]

definition show_int :: "int \<Rightarrow> string" where
  "show_int i = (if i < 0 then CHR ''-'' # show_nat (nat (- i)) else show_nat (nat i))"

text \<open>
  \<open>h = (Math.imul(31, h) + s.charCodeAt(i)) | 0\<close> is arithmetic modulo \<open>2^32\<close>;
  \<open>h >>> 0\<close> reads the result as unsigned.
\<close>

definition deterministicHash :: "string \<Rightarrow> nat" where
  "deterministicHash s = unat (foldl (\<lambda>h c. 31 * h + of_char c) (0 :: 32 word) s)"

text \<open>
  The selection loop of \<open>buildContractBoard\<close>:
  \<^verbatim>\<open>
  for (const t of shuffled) {
    if (chosen.length >= 3) break;
    if (!seen.has(t.protocol) || chosen.length < 3) { chosen.push(t); seen.add(t.protocol); }
  }
  \<close>
\<close>

fun chooseLoop ::
  "ContractTemplate list \<Rightarrow> ProtocolFamily set \<Rightarrow> ContractTemplate list \<Rightarrow> ContractTemplate list"
where
  "chooseLoop [] seen chosen = chosen"
| "chooseLoop (t # ts) seen chosen =
     (if length chosen \<ge> 3 then chosen
      else if t_protocol t \<notin> seen \<or> length chosen < 3
           then chooseLoop ts (insert (t_protocol t) seen) (chosen @ [t])
           else chooseLoop ts seen chosen)"

definition instantiate :: "int \<Rightarrow> ContractTemplate \<Rightarrow> nat \<Rightarrow> ContractState" where
  "instantiate seed t i =
     \<lparr>cid = t_id t @ ''_run'' @ show_int seed @ ''_'' @ show_nat i,
      cname = t_name t,
      description = t_description t,
      protocol = t_protocol t,
      targetPayload = t_targetPayload t,
      timeLimitSec = t_timeLimitSec t,
      rewardCredits = t_rewardCredits t,
      rewardFragments = t_rewardFragments t,
      progressPayload = 0,
      tier = t_tier t,
      active = False,
      expired = False,
      timeRemainingS = t_timeLimitSec t\<rparr>"

fun mapIndexed :: "('a \<Rightarrow> nat \<Rightarrow> 'b) \<Rightarrow> nat \<Rightarrow> 'a list \<Rightarrow> 'b list" where
  "mapIndexed f i [] = []"
| "mapIndexed f i (x # xs) = f x i # mapIndexed f (Suc i) xs"

text \<open>\<open>Array.prototype.sort\<close> is stable, as \<open>sort_key\<close> is.\<close>

definition shuffled :: "nat \<Rightarrow> int \<Rightarrow> ContractTemplate list" where
  "shuffled prestige seed =
     sort_key (\<lambda>t. deterministicHash (t_id t @ show_int seed))
       (filter (\<lambda>t. minPrestige t \<le> prestige) CONTRACT_TEMPLATES)"

definition buildContractBoard :: "nat \<Rightarrow> int \<Rightarrow> ContractState list" where
  "buildContractBoard prestige seed =
     mapIndexed (instantiate seed) 0 (take 3 (chooseLoop (shuffled prestige seed) {} []))"

section \<open>Contract board management (core/contracts.ts)\<close>

text \<open>\<open>a ^ b\<close> converts both operands to 32-bit integers and yields a signed one.\<close>

definition refreshContractBoard :: "GameState \<Rightarrow> GameState" where
  "refreshContractBoard state =
     (let seed = sint ((word_of_nat (tickCount state) :: 32 word)
                        XOR word_of_nat (prestigeCount (meta state) * 1000));
          newContracts = buildContractBoard (prestigeCount (meta state)) seed
      in state\<lparr>contracts := newContracts, activeContractId := None\<rparr>)"

text \<open>A string-or-null value is truthy when it is a non-empty string.\<close>

definition truthy :: "string option \<Rightarrow> bool" where
  "truthy v = (case v of None \<Rightarrow> False | Some x \<Rightarrow> x \<noteq> [])"

definition activateContract :: "GameState \<Rightarrow> string \<Rightarrow> GameState option" where
  "activateContract state contractId =
     (case List.find (\<lambda>c. cid c = contractId) (contracts state) of
        None \<Rightarrow> None
      | Some contract \<Rightarrow>
          if active contract \<or> expired contract \<or> progressPayload contract > 0 then None
          else if truthy (activeContractId state) then None
          else Some (state\<lparr>contracts :=
                              map (\<lambda>c. if cid c = contractId then c\<lparr>active := True\<rparr> else c)
                                (contracts state),
                            activeContractId := Some contractId\<rparr>))"

definition isBoardExhausted :: "GameState \<Rightarrow> bool" where
  "isBoardExhausted state =
     (length (contracts state) > 0 \<and>
      list_all (\<lambda>c. \<not> active c \<and> (progressPayload c \<ge> targetPayload c \<or> expired c))
        (contracts state))"

section \<open>Tick engine (core/tick.ts)\<close>

text \<open>
  The body of the per-lane loop: the lane after the step and the payload it produced.
  Throughput is computed from the input state (the snapshot before mutation).
\<close>

definition processLane ::
  "GameState \<Rightarrow> real \<Rightarrow> real \<Rightarrow> real \<Rightarrow> real \<Rightarrow> LaneState \<Rightarrow> LaneState \<times> real" where
  "processLane state deltaSeconds scrapPerLane queueTolerance totalLatencyReduction lane =
     (let throughput = calculateLaneThroughput lane state;
          q1 = queue lane + scrapPerLane;
          toProcess = min q1 (processingCapacity throughput * deltaSeconds);
          q2 = max 0 (q1 - toProcess);
          pen = penalty (calculateLatency (real (activeModuleCount throughput)) q2
                           queueTolerance totalLatencyReduction);
          payloadFromLane = toProcess * outputMultiplier throughput * pen
      in (lane\<lparr>queue := q2, heat := max 0 (1 - pen)\<rparr>, payloadFromLane))"

fun laneLoop ::
  "(LaneState \<Rightarrow> LaneState \<times> real) \<Rightarrow> LaneState list \<Rightarrow> real \<Rightarrow> LaneState list \<times> real" where
  "laneLoop f [] acc = ([], acc)"
| "laneLoop f (l # ls) acc =
     (case f l of (l', p) \<Rightarrow>
        (case laneLoop f ls (acc + p) of (ls', acc') \<Rightarrow> (l' # ls', acc')))"

text \<open>Sections 1 and 2 of \<open>processTick\<close>: the new lanes and \<open>totalPayloadThisTick\<close>.\<close>

definition runLanes :: "GameState \<Rightarrow> real \<Rightarrow> LaneState list \<times> real" where
  "runLanes state deltaSeconds =
     (let scrapRate = calculateScrapGenRate state;
          scrapGenerated = scrapRate * deltaSeconds;
          scrapPerLane = scrapGenerated / real (length (lanes state));
          queueTolerance = real (lookup0 (upgradesPurchased state) ''hw_buffer'' * 10);
          coolingLevel = lookup0 (upgradesPurchased state) ''hw_cooling'';
          latencyReductionPct = real coolingLevel * 0.05;
          latencyShieldPerk = lookup0 (perks (meta state)) ''perk_latency_shield'';
          totalLatencyReduction = min 0.9 (latencyReductionPct + real latencyShieldPerk * 0.15)
      in laneLoop (processLane state deltaSeconds scrapPerLane queueTolerance totalLatencyReduction)
           (lanes state) 0)"

text \<open>The object found by \<open>contracts.find\<close> is mutated in place: the first match is replaced.\<close>

fun replaceFirst :: "('a \<Rightarrow> bool) \<Rightarrow> 'a \<Rightarrow> 'a list \<Rightarrow> 'a list" where
  "replaceFirst P y [] = []"
| "replaceFirst P y (x # xs) = (if P x then y # xs else x # replaceFirst P y xs)"

text \<open>The time-limit block of section 5, on the contract and the state.\<close>

definition expiryStep :: "real \<Rightarrow> ContractState \<times> GameState \<Rightarrow> ContractState \<times> GameState" where
  "expiryStep deltaSeconds cs =
     (case cs of (contract, s) \<Rightarrow>
        (case timeRemainingS contract of
           None \<Rightarrow> (contract, s)
         | Some tr \<Rightarrow>
             let c1 = contract\<lparr>timeRemainingS := Some (tr - deltaSeconds)\<rparr> in
             if tr - deltaSeconds \<le> 0
             then (c1\<lparr>expired := True, active := False\<rparr>, s\<lparr>activeContractId := None\<rparr>)
             else (c1, s)))"

text \<open>The auto-complete block of section 5.\<close>

definition completionStep :: "ContractState \<times> GameState \<Rightarrow> ContractState \<times> GameState" where
  "completionStep cs =
     (case cs of (contract, s) \<Rightarrow>
        if progressPayload contract \<ge> targetPayload contract
        then (contract\<lparr>active := False, expired := False\<rparr>,
              s\<lparr>resources := (resources s)
                     \<lparr>credits := credits (resources s) + rewardCredits contract,
                      fragments := fragments (resources s) + rewardFragments contract\<rparr>,
                stats := (stats s)
                     \<lparr>totalCreditsEarned := totalCreditsEarned (stats s) + rewardCredits contract\<rparr>,
                completedContractCount := completedContractCount s + 1,
                highTierContractsCompleted :=
                  (if tier contract = high then highTierContractsCompleted s + 1
                   else highTierContractsCompleted s),
                activeContractId := None\<rparr>)
        else (contract, s))"

definition contractProgress :: "real \<Rightarrow> real \<Rightarrow> GameState \<Rightarrow> GameState" where
  "contractProgress totalPayloadThisTick deltaSeconds s =
     (if truthy (activeContractId s) then
        (case List.find (\<lambda>c. Some (cid c) = activeContractId s) (contracts s) of
           None \<Rightarrow> s
         | Some contract \<Rightarrow>
             if active contract then
               (case completionStep (expiryStep deltaSeconds
                       (contract\<lparr>progressPayload := progressPayload contract + totalPayloadThisTick\<rparr>,
                        s)) of
                  (c', s') \<Rightarrow>
                    s'\<lparr>contracts :=
                         replaceFirst (\<lambda>c. Some (cid c) = activeContractId s) c' (contracts s)\<rparr>)
             else s)
      else s)"

definition prestigeReadiness :: "GameState \<Rightarrow> GameState" where
  "prestigeReadiness s =
     (if prestigeReadyAt (stats s) = None \<and> totalPayloadProduced (stats s) \<ge> 3000
      then s\<lparr>stats := (stats s)\<lparr>prestigeReadyAt := Some (tickCount s)\<rparr>\<rparr>
      else s)"

definition totalPayloadThisTick :: "GameState \<Rightarrow> real \<Rightarrow> real" where
  "totalPayloadThisTick state deltaSeconds = snd (runLanes state deltaSeconds)"

text \<open>
  The JSON deep clone yields a value equal to the input; every later assignment to the clone
  is a record update. Counters, lanes, and section 3 (payload and credits): all rates are
  computed from the input state.
\<close>

definition accumulate :: "GameState \<Rightarrow> real \<Rightarrow> GameState" where
  "accumulate state deltaSeconds =
     (let total = totalPayloadThisTick state deltaSeconds;
          earned = total * calculateCreditRate state
      in state\<lparr>lanes := fst (runLanes state deltaSeconds),
               resources := (resources state)
                  \<lparr>payload := payload (resources state) + total,
                   credits := credits (resources state) + earned\<rparr>,
               stats := (stats state)
                  \<lparr>playtimeSec := playtimeSec (stats state) + deltaSeconds,
                   totalPayloadProduced := totalPayloadProduced (stats state) + total,
                   totalCreditsEarned := totalCreditsEarned (stats state) + earned\<rparr>,
               tickCount := tickCount state + 1\<rparr>)"

text \<open>Section 4: \<open>if (s.tickCount % fragInterval === 0) s.resources.fragments += 1\<close>.\<close>

definition fragmentDrop :: "int \<Rightarrow> GameState \<Rightarrow> GameState" where
  "fragmentDrop fragInterval s =
     (if int (tickCount s) mod fragInterval = 0
      then s\<lparr>resources := (resources s)\<lparr>fragments := fragments (resources s) + 1\<rparr>\<rparr>
      else s)"

definition processTick :: "GameState \<Rightarrow> real \<Rightarrow> GameState" where
  "processTick state deltaSeconds =
     prestigeReadiness
       (contractProgress (totalPayloadThisTick state deltaSeconds) deltaSeconds
          (fragmentDrop (calculateFragmentInterval state) (accumulate state deltaSeconds)))"

text \<open>A caller's loop of successive ticks, one per element of the list of deltas.\<close>

definition runTicks :: "GameState \<Rightarrow> real list \<Rightarrow> GameState" where
  "runTicks s ds = foldl processTick s ds"

section \<open>Offline progression replay (core/tick.ts)\<close>

record OfflineSummary =
  elapsedSeconds :: real
  ticksSimulated :: nat
  payloadEarned :: real
  creditsEarned :: real
  fragmentsEarned :: real

text \<open>The chunk loop: \<open>while (remaining >= 60) { ... }\<close>.\<close>

function offlineLoop :: "GameState \<Rightarrow> real \<Rightarrow> nat \<Rightarrow> GameState \<times> real \<times> nat" where
  "offlineLoop current remaining ticks =
     (if remaining \<ge> 60
      then offlineLoop (processTick current 60) (remaining - 60) (ticks + 1)
      else (current, remaining, ticks))"
  by pat_completeness auto
termination
proof (relation "measure (\<lambda>(c, r, n). nat \<lfloor>r\<rfloor>)")
  show "wf (measure (\<lambda>(c :: GameState, r :: real, n :: nat). nat \<lfloor>r\<rfloor>))"
    by simp
next
  fix current :: GameState and remaining :: real and ticks :: nat
  assume "60 \<le> remaining"
  then have "60 \<le> \<lfloor>remaining\<rfloor>"
    by (simp add: le_floor_iff)
  moreover have "\<lfloor>remaining - 60\<rfloor> = \<lfloor>remaining\<rfloor> - 60"
    by simp
  ultimately show "((processTick current 60, remaining - 60, ticks + 1), current, remaining, ticks)
        \<in> measure (\<lambda>(c, r, n). nat \<lfloor>r\<rfloor>)"
    by simp
qed

declare offlineLoop.simps [simp del]

definition processOfflineProgress :: "GameState \<Rightarrow> real \<Rightarrow> GameState \<times> OfflineSummary" where
  "processOfflineProgress state nowMs =
     (let offlineCapHours = 8 + real (lookup0 (perks (meta state)) ''perk_offline_cap'') * 4;
          capSeconds = offlineCapHours * 3600;
          elapsed = min (max 0 ((nowMs - lastTickTime state) / 1000)) capSeconds
      in case offlineLoop state elapsed 0 of
           (c1, remaining, n1) \<Rightarrow>
             let c2 = (if remaining > 0 then processTick c1 remaining else c1);
                 n2 = (if remaining > 0 then n1 + 1 else n1);
                 c3 = c2\<lparr>lastTickTime := nowMs\<rparr>
             in (c3,
                 \<lparr>elapsedSeconds = elapsed,
                  ticksSimulated = n2,
                  payloadEarned =
                    totalPayloadProduced (stats c3) - totalPayloadProduced (stats state),
                  creditsEarned = totalCreditsEarned (stats c3) - totalCreditsEarned (stats state),
                  fragmentsEarned = fragments (resources c3) - fragments (resources state)\<rparr>))"

section \<open>Prestige controller (core/prestige.ts)\<close>

definition calculateReputationGain :: "GameState \<Rightarrow> int" where
  "calculateReputationGain state =
     (let payloadScore = \<lfloor>(max 0 (totalPayloadProduced (stats state))) powr 0.25\<rfloor>;
          contractScore = \<lfloor>real (highTierContractsCompleted state) * 0.5
                           + real (completedContractCount state) * 0.25\<rfloor>;
          protocolScore = int (card (protocolsUsed state))
      in max 1 (payloadScore + contractScore + protocolScore))"

definition canPrestige :: "GameState \<Rightarrow> bool" where
  "canPrestige state = (totalPayloadProduced (stats state) \<ge> 3000)"

text \<open>\<open>applyPrestige\<close> reads the wall clock twice; both readings are the argument \<open>now\<close>.\<close>

definition applyPrestige :: "real \<Rightarrow> GameState \<Rightarrow> GameState" where
  "applyPrestige now state =
     (let gained = calculateReputationGain state;
          fresh = createInitialState now;
          newMeta = \<lparr>prestigeCount = prestigeCount (meta state) + 1,
                     totalReputation = totalReputation (meta state) + gained,
                     spentReputation = spentReputation (meta state),
                     perks = perks (meta state)\<rparr>;
          headStart = lookup0 (perks newMeta) ''perk_head_start'';
          initialLaneCount = 1 + headStart;
          freshLanes = map createLane [0 ..< initialLaneCount]
      in fresh\<lparr>meta := newMeta, lanes := freshLanes, protocolsUsed := {burst},
               lastTickTime := now\<rparr>)"

section \<open>Reachable states\<close>

text \<open>
  States reachable from the initial state by ticks, board refreshes, successful
  activations and prestige resets.
\<close>

inductive reachable :: "GameState \<Rightarrow> bool" where
  r_init: "reachable (createInitialState now)"
| r_tick: "reachable s \<Longrightarrow> reachable (processTick s d)"
| r_refresh: "reachable s \<Longrightarrow> reachable (refreshContractBoard s)"
| r_activate: "reachable s \<Longrightarrow> activateContract s c = Some s' \<Longrightarrow> reachable s'"
| r_reset: "reachable s \<Longrightarrow> reachable (applyPrestige now s)"

section \<open>The reward formula as the specification words it\<close>

text \<open>
  \<open>floor(lifetimeOutput ^ 0.25) + highTierCompleted * 0.5 + totalCompleted * 0.25
  + distinctProtocolsUsedThisRun\<close>, floored at a minimum of 1.
\<close>

definition specRewardSum :: "GameState \<Rightarrow> real" where
  "specRewardSum state =
     real_of_int \<lfloor>totalPayloadProduced (stats state) powr 0.25\<rfloor>
     + real (highTierContractsCompleted state) * 0.5
     + real (completedContractCount state) * 0.25
     + real (card (protocolsUsed state))"

definition specReward :: "GameState \<Rightarrow> real" where
  "specReward state = max 1 (specRewardSum state)"

section \<open>Example states\<close>

text \<open>A fresh state whose only contract, active, has target 5 and one second left.\<close>

definition tieContract :: ContractState where
  "tieContract =
     \<lparr>cid = ''timed_contract'', cname = ''Timed'', description = [],
      protocol = burst, targetPayload = 5, timeLimitSec = Some 2,
      rewardCredits = 100, rewardFragments = 3, progressPayload = 0,
      tier = high, active = True, expired = False, timeRemainingS = Some 1\<rparr>"

definition tieState :: GameState where
  "tieState = (createInitialState 0)
     \<lparr>contracts := [tieContract], activeContractId := Some ''timed_contract''\<rparr>"

text \<open>
  A run with lifetime output 5000 in which one contract, a high-tier one, was completed
  under the starting protocol.
\<close>

definition rewardState :: GameState where
  "rewardState = (createInitialState 0)
     \<lparr>completedContractCount := 1, highTierContractsCompleted := 1,
      stats := \<lparr>totalPayloadProduced = 5000, totalCreditsEarned = 6500, playtimeSec = 900,
                prestigeReadyAt = Some 540\<rparr>\<rparr>"

section \<open>The board invariant\<close>

text \<open>
  Contract ids on the board are distinct and non-empty, and every contract with active status
  is the one the active pointer names.
\<close>

definition boardInv :: "GameState \<Rightarrow> bool" where
  "boardInv s \<longleftrightarrow>
     distinct (map cid (contracts s))
     \<and> (\<forall>c \<in> set (contracts s). cid c \<noteq> [])
     \<and> (\<forall>c \<in> set (contracts s). active c \<longrightarrow> activeContractId s = Some (cid c))"

text \<open>A new game whose board was generated and whose first contract was accepted.\<close>

definition acceptedState :: GameState where
  "acceptedState =
     the (activateContract (refreshContractBoard (createInitialState 0)) ''tpl_burst_low_1_run0_0'')"

section \<open>Objects, references and the store\<close>

text \<open>
  The state is a graph of objects: the root object refers to its resource pool, its lane
  array, its module table and so on, and an assignment such as \<open>s.stats.playtimeSec += d\<close>
  changes the object that \<open>s.stats\<close> refers to, for everyone who holds a reference to it.
  Where a claim is about copies and sharing, the state lives in a store: a list of objects,
  an address being an index into it. Fields that hold numbers, strings, booleans or null
  are stored in the object; fields that hold objects or arrays are stored as addresses.
\<close>

type_synonym addr = nat

record RootObj =
  r_version :: nat
  r_lastTickTime :: real
  r_resources :: addr
  r_lanes :: addr
  r_modules :: addr
  r_activeProtocol :: ProtocolFamily
  r_upgradesPurchased :: addr
  r_contracts :: addr
  r_activeContractId :: "string option"
  r_completedContractCount :: nat
  r_highTierContractsCompleted :: nat
  r_protocolsUsed :: addr
  r_meta :: addr
  r_stats :: addr
  r_tickCount :: nat

record LaneObj =
  l_id :: nat
  l_queue :: real
  l_heat :: real
  l_enabledModules :: addr

record MetaObj =
  m_prestigeCount :: nat
  m_totalReputation :: int
  m_spentReputation :: int
  m_perks :: addr

datatype obj =
    ORoot RootObj
  | OPool ResourcePool
  | OStats Stats
  | OArr "addr list"
  | OLane LaneObj
  | OModList "ModuleType list"
  | OModules "ModuleType \<Rightarrow> addr"
  | OModInfo ModuleInfo
  | OLevels "string \<rightharpoonup> nat"
  | OContract ContractState
  | OSet "ProtocolFamily set"
  | OMeta MetaObj

type_synonym heap = "obj list"

definition deref :: "heap \<Rightarrow> addr \<Rightarrow> obj option" where
  "deref h a = (if a < length h then Some (h ! a) else None)"

subsection \<open>Reading a state out of the store\<close>

text \<open>
  Reading follows the references; it fails (\<open>None\<close>) on a dangling address or on an object
  of the wrong kind, which the typed source excludes. What \<open>JSON.stringify\<close> writes, and
  what the pure functions of the engine compute with, is the value read.
\<close>

definition read_pool :: "heap \<Rightarrow> addr \<Rightarrow> ResourcePool option" where
  "read_pool h a = (case deref h a of Some (OPool p) \<Rightarrow> Some p | _ \<Rightarrow> None)"

definition read_stats :: "heap \<Rightarrow> addr \<Rightarrow> Stats option" where
  "read_stats h a = (case deref h a of Some (OStats st) \<Rightarrow> Some st | _ \<Rightarrow> None)"

definition read_levels :: "heap \<Rightarrow> addr \<Rightarrow> (string \<rightharpoonup> nat) option" where
  "read_levels h a = (case deref h a of Some (OLevels m) \<Rightarrow> Some m | _ \<Rightarrow> None)"

definition read_set :: "heap \<Rightarrow> addr \<Rightarrow> ProtocolFamily set option" where
  "read_set h a = (case deref h a of Some (OSet ps) \<Rightarrow> Some ps | _ \<Rightarrow> None)"

definition read_modinfo :: "heap \<Rightarrow> addr \<Rightarrow> ModuleInfo option" where
  "read_modinfo h a = (case deref h a of Some (OModInfo mi) \<Rightarrow> Some mi | _ \<Rightarrow> None)"

definition read_modlist :: "heap \<Rightarrow> addr \<Rightarrow> ModuleType list option" where
  "read_modlist h a = (case deref h a of Some (OModList ms) \<Rightarrow> Some ms | _ \<Rightarrow> None)"

definition read_contract :: "heap \<Rightarrow> addr \<Rightarrow> ContractState option" where
  "read_contract h a = (case deref h a of Some (OContract c) \<Rightarrow> Some c | _ \<Rightarrow> None)"

definition read_modules :: "heap \<Rightarrow> addr \<Rightarrow> (ModuleType \<Rightarrow> ModuleInfo) option" where
  "read_modules h a =
     (case deref h a of
        Some (OModules f) \<Rightarrow> do {
          d \<leftarrow> read_modinfo h (f decrypt);
          c \<leftarrow> read_modinfo h (f checksum);
          z \<leftarrow> read_modinfo h (f compress);
          t \<leftarrow> read_modinfo h (f tag);
          Some (\<lambda>m. case m of decrypt \<Rightarrow> d | checksum \<Rightarrow> c | compress \<Rightarrow> z | tag \<Rightarrow> t)
        }
      | _ \<Rightarrow> None)"

definition read_lane :: "heap \<Rightarrow> addr \<Rightarrow> LaneState option" where
  "read_lane h a =
     (case deref h a of
        Some (OLane l) \<Rightarrow> do {
          ms \<leftarrow> read_modlist h (l_enabledModules l);
          Some \<lparr>lane_id = l_id l, queue = l_queue l, heat = l_heat l, enabledModules = ms\<rparr>
        }
      | _ \<Rightarrow> None)"

definition read_meta :: "heap \<Rightarrow> addr \<Rightarrow> MetaProgress option" where
  "read_meta h a =
     (case deref h a of
        Some (OMeta m) \<Rightarrow> do {
          ps \<leftarrow> read_levels h (m_perks m);
          Some \<lparr>prestigeCount = m_prestigeCount m, totalReputation = m_totalReputation m,
                spentReputation = m_spentReputation m, perks = ps\<rparr>
        }
      | _ \<Rightarrow> None)"

definition read_array :: "(heap \<Rightarrow> addr \<Rightarrow> 'a option) \<Rightarrow> heap \<Rightarrow> addr \<Rightarrow> 'a list option" where
  "read_array rd h a =
     (case deref h a of Some (OArr refs) \<Rightarrow> those (map (rd h) refs) | _ \<Rightarrow> None)"

definition read_state :: "heap \<Rightarrow> addr \<Rightarrow> GameState option" where
  "read_state h a =
     (case deref h a of
        Some (ORoot r) \<Rightarrow> do {
          pool \<leftarrow> read_pool h (r_resources r);
          ls \<leftarrow> read_array read_lane h (r_lanes r);
          ms \<leftarrow> read_modules h (r_modules r);
          us \<leftarrow> read_levels h (r_upgradesPurchased r);
          cs \<leftarrow> read_array read_contract h (r_contracts r);
          ps \<leftarrow> read_set h (r_protocolsUsed r);
          me \<leftarrow> read_meta h (r_meta r);
          st \<leftarrow> read_stats h (r_stats r);
          Some \<lparr>version = r_version r, lastTickTime = r_lastTickTime r, resources = pool,
                lanes = ls, modules = ms, activeProtocol = r_activeProtocol r,
                upgradesPurchased = us, contracts = cs,
                activeContractId = r_activeContractId r,
                completedContractCount = r_completedContractCount r,
                highTierContractsCompleted = r_highTierContractsCompleted r,
                protocolsUsed = ps, meta = me, stats = st, tickCount = r_tickCount r\<rparr>
        }
      | _ \<Rightarrow> None)"

subsection \<open>The objects a state is made of\<close>

text \<open>The addresses of all objects and arrays reached from a root, the root included.\<close>

definition refs_of :: "heap \<Rightarrow> addr \<Rightarrow> addr list" where
  "refs_of h a = (case deref h a of Some (OArr refs) \<Rightarrow> refs | _ \<Rightarrow> [])"

definition reach_lane :: "heap \<Rightarrow> addr \<Rightarrow> addr set" where
  "reach_lane h a =
     insert a (case deref h a of Some (OLane l) \<Rightarrow> {l_enabledModules l} | _ \<Rightarrow> {})"

definition reach_modules :: "heap \<Rightarrow> addr \<Rightarrow> addr set" where
  "reach_modules h a =
     insert a
       (case deref h a of
          Some (OModules f) \<Rightarrow> {f decrypt, f checksum, f compress, f tag}
        | _ \<Rightarrow> {})"

definition reach_meta :: "heap \<Rightarrow> addr \<Rightarrow> addr set" where
  "reach_meta h a =
     insert a (case deref h a of Some (OMeta m) \<Rightarrow> {m_perks m} | _ \<Rightarrow> {})"

definition reach_state :: "heap \<Rightarrow> addr \<Rightarrow> addr set" where
  "reach_state h a =
     insert a
       (case deref h a of
          Some (ORoot r) \<Rightarrow>
            {r_resources r, r_upgradesPurchased r, r_protocolsUsed r, r_stats r,
             r_lanes r, r_contracts r}
            \<union> (\<Union>x \<in> set (refs_of h (r_lanes r)). reach_lane h x)
            \<union> set (refs_of h (r_contracts r))
            \<union> reach_modules h (r_modules r)
            \<union> reach_meta h (r_meta r)
        | _ \<Rightarrow> {})"

subsection \<open>The deep clone\<close>

text \<open>
  \<open>JSON.parse(JSON.stringify(state, ...))\<close> writes the value of the graph as text and builds
  a new object or array for every object and array of the text; the next statement replaces
  the parsed \<open>protocolsUsed\<close> array by a new \<open>Set\<close> with the elements of the input's set.
  Which unused addresses the new objects get is immaterial: the model takes the next free
  ones, in a fixed order.
\<close>

fun mod_index :: "ModuleType \<Rightarrow> nat" where
  "mod_index decrypt = 0"
| "mod_index checksum = 1"
| "mod_index compress = 2"
| "mod_index tag = 3"

definition root_obj :: "addr \<Rightarrow> GameState \<Rightarrow> RootObj" where
  "root_obj n v =
     \<lparr>r_version = version v, r_lastTickTime = lastTickTime v, r_resources = n + 1,
      r_lanes = n + 12, r_modules = n + 6, r_activeProtocol = activeProtocol v,
      r_upgradesPurchased = n + 5, r_contracts = n + 13,
      r_activeContractId = activeContractId v,
      r_completedContractCount = completedContractCount v,
      r_highTierContractsCompleted = highTierContractsCompleted v,
      r_protocolsUsed = n + 11, r_meta = n + 3, r_stats = n + 2, r_tickCount = tickCount v\<rparr>"

definition lane_obj :: "addr \<Rightarrow> LaneState \<Rightarrow> LaneObj" where
  "lane_obj m l = \<lparr>l_id = lane_id l, l_queue = queue l, l_heat = heat l, l_enabledModules = m\<rparr>"

definition meta_obj :: "addr \<Rightarrow> GameState \<Rightarrow> MetaObj" where
  "meta_obj n v =
     \<lparr>m_prestigeCount = prestigeCount (meta v), m_totalReputation = totalReputation (meta v),
      m_spentReputation = spentReputation (meta v), m_perks = n + 4\<rparr>"

definition module_refs :: "addr \<Rightarrow> ModuleType \<Rightarrow> addr" where
  "module_refs n m = n + 7 + mod_index m"

definition contract_refs :: "addr \<Rightarrow> GameState \<Rightarrow> addr list" where
  "contract_refs n v = map (\<lambda>j. n + 14 + j) [0 ..< length (contracts v)]"

definition lane_refs :: "addr \<Rightarrow> GameState \<Rightarrow> addr list" where
  "lane_refs n v = map (\<lambda>i. n + 14 + length (contracts v) + i) [0 ..< length (lanes v)]"

definition fixed_objs :: "addr \<Rightarrow> GameState \<Rightarrow> obj list" where
  "fixed_objs n v =
     [ORoot (root_obj n v),
      OPool (resources v),
      OStats (stats v),
      OMeta (meta_obj n v),
      OLevels (perks (meta v)),
      OLevels (upgradesPurchased v),
      OModules (module_refs n),
      OModInfo (modules v decrypt),
      OModInfo (modules v checksum),
      OModInfo (modules v compress),
      OModInfo (modules v tag),
      OSet (protocolsUsed v),
      OArr (lane_refs n v),
      OArr (contract_refs n v)]"

definition lane_objs :: "addr \<Rightarrow> LaneState list \<Rightarrow> obj list" where
  "lane_objs m ls = map (\<lambda>i. OLane (lane_obj (m + i) (ls ! i))) [0 ..< length ls]"

definition layout_objs :: "addr \<Rightarrow> GameState \<Rightarrow> obj list" where
  "layout_objs n v =
     fixed_objs n v
     @ map OContract (contracts v)
     @ lane_objs (n + 14 + length (contracts v) + length (lanes v)) (lanes v)
     @ map (\<lambda>l. OModList (enabledModules l)) (lanes v)"

definition clone :: "heap \<Rightarrow> addr \<Rightarrow> (heap \<times> addr) option" where
  "clone h a = do {
     v \<leftarrow> read_state h a;
     Some (h @ layout_objs (length h) v, length h)
   }"

subsection \<open>Assignments through a reference\<close>

text \<open>
  Each assignment reads the references out of the store as it is at that moment and
  replaces one object: \<open>s.stats.f = ...\<close> the object \<open>s.stats\<close> refers to,
  \<open>s.lanes[i].f = ...\<close> the i-th element of the array \<open>s.lanes\<close> refers to, \<open>s.f = ...\<close>
  the root itself.
\<close>

definition upd_stats :: "(Stats \<Rightarrow> Stats) \<Rightarrow> heap \<Rightarrow> addr \<Rightarrow> heap option" where
  "upd_stats f h s =
     (case deref h s of
        Some (ORoot r) \<Rightarrow>
          (case deref h (r_stats r) of
             Some (OStats st) \<Rightarrow> Some (h[r_stats r := OStats (f st)])
           | _ \<Rightarrow> None)
      | _ \<Rightarrow> None)"

definition upd_pool :: "(ResourcePool \<Rightarrow> ResourcePool) \<Rightarrow> heap \<Rightarrow> addr \<Rightarrow> heap option" where
  "upd_pool f h s =
     (case deref h s of
        Some (ORoot r) \<Rightarrow>
          (case deref h (r_resources r) of
             Some (OPool p) \<Rightarrow> Some (h[r_resources r := OPool (f p)])
           | _ \<Rightarrow> None)
      | _ \<Rightarrow> None)"

definition upd_root :: "(RootObj \<Rightarrow> RootObj) \<Rightarrow> heap \<Rightarrow> addr \<Rightarrow> heap option" where
  "upd_root f h s =
     (case deref h s of Some (ORoot r) \<Rightarrow> Some (h[s := ORoot (f r)]) | _ \<Rightarrow> None)"

definition upd_lane :: "nat \<Rightarrow> (LaneObj \<Rightarrow> LaneObj) \<Rightarrow> heap \<Rightarrow> addr \<Rightarrow> heap option" where
  "upd_lane i f h s =
     (case deref h s of
        Some (ORoot r) \<Rightarrow>
          (case deref h (r_lanes r) of
             Some (OArr refs) \<Rightarrow>
               if i < length refs then
                 (case deref h (refs ! i) of
                    Some (OLane l) \<Rightarrow> Some (h[refs ! i := OLane (f l)])
                  | _ \<Rightarrow> None)
               else None
           | _ \<Rightarrow> None)
      | _ \<Rightarrow> None)"

definition upd_contract ::
  "nat \<Rightarrow> (ContractState \<Rightarrow> ContractState) \<Rightarrow> heap \<Rightarrow> addr \<Rightarrow> heap option" where
  "upd_contract j f h s =
     (case deref h s of
        Some (ORoot r) \<Rightarrow>
          (case deref h (r_contracts r) of
             Some (OArr refs) \<Rightarrow>
               if j < length refs then
                 (case deref h (refs ! j) of
                    Some (OContract c) \<Rightarrow> Some (h[refs ! j := OContract (f c)])
                  | _ \<Rightarrow> None)
               else None
           | _ \<Rightarrow> None)
      | _ \<Rightarrow> None)"

section \<open>The tick on the store\<close>

text \<open>
  \<open>processTick\<close> statement by statement, on the store: \<open>state\<close> is the address of the
  input, \<open>s\<close> the address of the clone. Every expression over \<open>state\<close> or \<open>s\<close> reads the
  store as it is when the statement runs; every assignment goes through \<open>s\<close>.
\<close>

fun findIndex :: "('a \<Rightarrow> bool) \<Rightarrow> 'a list \<Rightarrow> nat option" where
  "findIndex P [] = None"
| "findIndex P (x # xs) = (if P x then Some 0 else map_option Suc (findIndex P xs))"

text \<open>The body of the per-lane loop, for the lane indices still to do.\<close>

fun lane_loop_h ::
  "addr \<Rightarrow> addr \<Rightarrow> real \<Rightarrow> real \<Rightarrow> real \<Rightarrow> real \<Rightarrow> nat list \<Rightarrow> real \<Rightarrow> heap
   \<Rightarrow> (heap \<times> real) option" where
  "lane_loop_h state s deltaSeconds scrapPerLane queueTolerance totalLatencyReduction [] acc h =
     Some (h, acc)"
| "lane_loop_h state s deltaSeconds scrapPerLane queueTolerance totalLatencyReduction (i # rest) acc h =
     do {
       sv \<leftarrow> read_state h state;
       cur \<leftarrow> read_state h s;
       if i < length (lanes sv) \<and> i < length (lanes cur) then do {
         let throughput = calculateLaneThroughput (lanes sv ! i) sv;
         let q1 = queue (lanes cur ! i) + scrapPerLane;
         h1 \<leftarrow> upd_lane i (\<lambda>l. l\<lparr>l_queue := q1\<rparr>) h s;
         let toProcess = min q1 (processingCapacity throughput * deltaSeconds);
         let q2 = max 0 (q1 - toProcess);
         h2 \<leftarrow> upd_lane i (\<lambda>l. l\<lparr>l_queue := q2\<rparr>) h1 s;
         let pen = penalty (calculateLatency (real (activeModuleCount throughput)) q2
                              queueTolerance totalLatencyReduction);
         h3 \<leftarrow> upd_lane i (\<lambda>l. l\<lparr>l_heat := max 0 (1 - pen)\<rparr>) h2 s;
         lane_loop_h state s deltaSeconds scrapPerLane queueTolerance totalLatencyReduction rest
           (acc + toProcess * outputMultiplier throughput * pen) h3
       } else None
     }"

text \<open>Sections 1 and 2: the rates are computed from \<open>state\<close>, the lanes of \<open>s\<close> are updated.\<close>

definition lanes_h :: "addr \<Rightarrow> addr \<Rightarrow> real \<Rightarrow> heap \<Rightarrow> (heap \<times> real) option" where
  "lanes_h state s deltaSeconds h = do {
     sv \<leftarrow> read_state h state;
     cur \<leftarrow> read_state h s;
     let scrapRate = calculateScrapGenRate sv;
     let scrapGenerated = scrapRate * deltaSeconds;
     let scrapPerLane = scrapGenerated / real (length (lanes cur));
     let queueTolerance = real (lookup0 (upgradesPurchased sv) ''hw_buffer'' * 10);
     let coolingLevel = lookup0 (upgradesPurchased sv) ''hw_cooling'';
     let latencyReductionPct = real coolingLevel * 0.05;
     let latencyShieldPerk = lookup0 (perks (meta sv)) ''perk_latency_shield'';
     let totalLatencyReduction = min 0.9 (latencyReductionPct + real latencyShieldPerk * 0.15);
     lane_loop_h state s deltaSeconds scrapPerLane queueTolerance totalLatencyReduction
       [0 ..< length (lanes cur)] 0 h
   }"

text \<open>Section 3: payload and credits.\<close>

definition credit_h :: "addr \<Rightarrow> addr \<Rightarrow> real \<Rightarrow> heap \<Rightarrow> heap option" where
  "credit_h state s tot h = do {
     h1 \<leftarrow> upd_pool (\<lambda>p. p\<lparr>payload := payload p + tot\<rparr>) h s;
     h2 \<leftarrow> upd_stats (\<lambda>st. st\<lparr>totalPayloadProduced := totalPayloadProduced st + tot\<rparr>) h1 s;
     sv \<leftarrow> read_state h2 state;
     let creditRate = calculateCreditRate sv;
     let earned = tot * creditRate;
     h3 \<leftarrow> upd_pool (\<lambda>p. p\<lparr>credits := credits p + earned\<rparr>) h2 s;
     upd_stats (\<lambda>st. st\<lparr>totalCreditsEarned := totalCreditsEarned st + earned\<rparr>) h3 s
   }"

text \<open>Section 4: the fragment drop.\<close>

definition fragment_h :: "addr \<Rightarrow> addr \<Rightarrow> heap \<Rightarrow> heap option" where
  "fragment_h state s h = do {
     sv \<leftarrow> read_state h state;
     let fragInterval = calculateFragmentInterval sv;
     cur \<leftarrow> read_state h s;
     if int (tickCount cur) mod fragInterval = 0
     then upd_pool (\<lambda>p. p\<lparr>fragments := fragments p + 1\<rparr>) h s
     else Some h
   }"

text \<open>Section 5: the contract found on the board of \<open>s\<close> is changed in place.\<close>

definition expiry_h :: "addr \<Rightarrow> nat \<Rightarrow> real \<Rightarrow> heap \<Rightarrow> heap option" where
  "expiry_h s j deltaSeconds h = do {
     cur \<leftarrow> read_state h s;
     if j < length (contracts cur) then
       (case timeRemainingS (contracts cur ! j) of
          None \<Rightarrow> Some h
        | Some tr \<Rightarrow> do {
            h1 \<leftarrow> upd_contract j (\<lambda>c. c\<lparr>timeRemainingS := Some (tr - deltaSeconds)\<rparr>) h s;
            if tr - deltaSeconds \<le> 0 then do {
              h2 \<leftarrow> upd_contract j (\<lambda>c. c\<lparr>expired := True\<rparr>) h1 s;
              h3 \<leftarrow> upd_contract j (\<lambda>c. c\<lparr>active := False\<rparr>) h2 s;
              upd_root (\<lambda>r. r\<lparr>r_activeContractId := None\<rparr>) h3 s
            } else Some h1
          })
     else None
   }"

definition completion_h :: "addr \<Rightarrow> nat \<Rightarrow> heap \<Rightarrow> heap option" where
  "completion_h s j h = do {
     cur \<leftarrow> read_state h s;
     if j < length (contracts cur) then do {
       let contract = contracts cur ! j;
       if progressPayload contract \<ge> targetPayload contract then do {
         h1 \<leftarrow> upd_contract j (\<lambda>c. c\<lparr>active := False\<rparr>) h s;
         h2 \<leftarrow> upd_contract j (\<lambda>c. c\<lparr>expired := False\<rparr>) h1 s;
         h3 \<leftarrow> upd_pool (\<lambda>p. p\<lparr>credits := credits p + rewardCredits contract\<rparr>) h2 s;
         h4 \<leftarrow> upd_pool (\<lambda>p. p\<lparr>fragments := fragments p + rewardFragments contract\<rparr>) h3 s;
         h5 \<leftarrow> upd_stats
                 (\<lambda>st. st\<lparr>totalCreditsEarned := totalCreditsEarned st + rewardCredits contract\<rparr>)
                 h4 s;
         h6 \<leftarrow> upd_root
                 (\<lambda>r. r\<lparr>r_completedContractCount := r_completedContractCount r + 1\<rparr>) h5 s;
         h7 \<leftarrow> (if tier contract = high
                then upd_root
                       (\<lambda>r. r\<lparr>r_highTierContractsCompleted := r_highTierContractsCompleted r + 1\<rparr>)
                       h6 s
                else Some h6);
         upd_root (\<lambda>r. r\<lparr>r_activeContractId := None\<rparr>) h7 s
       } else Some h
     } else None
   }"

definition contract_h :: "addr \<Rightarrow> real \<Rightarrow> real \<Rightarrow> heap \<Rightarrow> heap option" where
  "contract_h s tot deltaSeconds h = do {
     cur \<leftarrow> read_state h s;
     if truthy (activeContractId cur) then
       (case findIndex (\<lambda>c. Some (cid c) = activeContractId cur) (contracts cur) of
          None \<Rightarrow> Some h
        | Some j \<Rightarrow>
            if active (contracts cur ! j) then do {
              h1 \<leftarrow> upd_contract j (\<lambda>c. c\<lparr>progressPayload := progressPayload c + tot\<rparr>) h s;
              h2 \<leftarrow> expiry_h s j deltaSeconds h1;
              completion_h s j h2
            } else Some h)
     else Some h
   }"

text \<open>Section 6: the prestige readiness stamp.\<close>

definition readiness_h :: "addr \<Rightarrow> heap \<Rightarrow> heap option" where
  "readiness_h s h = do {
     cur \<leftarrow> read_state h s;
     if prestigeReadyAt (stats cur) = None \<and> totalPayloadProduced (stats cur) \<ge> 3000
     then upd_stats (\<lambda>st. st\<lparr>prestigeReadyAt := Some (tickCount cur)\<rparr>) h s
     else Some h
   }"

text \<open>The whole function: the new store and the address it returns.\<close>

definition processTick_h :: "heap \<Rightarrow> addr \<Rightarrow> real \<Rightarrow> (heap \<times> addr) option" where
  "processTick_h h0 state deltaSeconds = do {
     (h1, s) \<leftarrow> clone h0 state;
     h2 \<leftarrow> upd_stats (\<lambda>st. st\<lparr>playtimeSec := playtimeSec st + deltaSeconds\<rparr>) h1 s;
     h3 \<leftarrow> upd_root (\<lambda>r. r\<lparr>r_tickCount := r_tickCount r + 1\<rparr>) h2 s;
     (h4, totalPayload) \<leftarrow> lanes_h state s deltaSeconds h3;
     h5 \<leftarrow> credit_h state s totalPayload h4;
     h6 \<leftarrow> fragment_h state s h5;
     h7 \<leftarrow> contract_h s totalPayload deltaSeconds h6;
     h8 \<leftarrow> readiness_h s h7;
     Some (h8, s)
   }"

section \<open>Basic facts about the phases of a tick\<close>

lemma accumulate_fields:
  "tickCount (accumulate s d) = tickCount s + 1"
  "playtimeSec (stats (accumulate s d)) = playtimeSec (stats s) + d"
  "totalPayloadProduced (stats (accumulate s d))
     = totalPayloadProduced (stats s) + totalPayloadThisTick s d"
  "totalCreditsEarned (stats (accumulate s d))
     = totalCreditsEarned (stats s) + totalPayloadThisTick s d * calculateCreditRate s"
  "prestigeReadyAt (stats (accumulate s d)) = prestigeReadyAt (stats s)"
  "payload (resources (accumulate s d)) = payload (resources s) + totalPayloadThisTick s d"
  "credits (resources (accumulate s d))
     = credits (resources s) + totalPayloadThisTick s d * calculateCreditRate s"
  "fragments (resources (accumulate s d)) = fragments (resources s)"
  "scrap (resources (accumulate s d)) = scrap (resources s)"
  "lanes (accumulate s d) = fst (runLanes s d)"
  by (simp_all add: accumulate_def Let_def)

lemma accumulate_frame:
  "version (accumulate s d) = version s"
  "lastTickTime (accumulate s d) = lastTickTime s"
  "modules (accumulate s d) = modules s"
  "activeProtocol (accumulate s d) = activeProtocol s"
  "upgradesPurchased (accumulate s d) = upgradesPurchased s"
  "contracts (accumulate s d) = contracts s"
  "activeContractId (accumulate s d) = activeContractId s"
  "completedContractCount (accumulate s d) = completedContractCount s"
  "highTierContractsCompleted (accumulate s d) = highTierContractsCompleted s"
  "protocolsUsed (accumulate s d) = protocolsUsed s"
  "meta (accumulate s d) = meta s"
  by (simp_all add: accumulate_def Let_def)

lemma fragmentDrop_fields:
  "fragments (resources (fragmentDrop i s))
     = fragments (resources s) + (if int (tickCount s) mod i = 0 then 1 else 0)"
  "payload (resources (fragmentDrop i s)) = payload (resources s)"
  "credits (resources (fragmentDrop i s)) = credits (resources s)"
  "scrap (resources (fragmentDrop i s)) = scrap (resources s)"
  by (simp_all add: fragmentDrop_def)

lemma fragmentDrop_frame:
  "version (fragmentDrop i s) = version s"
  "lastTickTime (fragmentDrop i s) = lastTickTime s"
  "lanes (fragmentDrop i s) = lanes s"
  "modules (fragmentDrop i s) = modules s"
  "activeProtocol (fragmentDrop i s) = activeProtocol s"
  "upgradesPurchased (fragmentDrop i s) = upgradesPurchased s"
  "contracts (fragmentDrop i s) = contracts s"
  "activeContractId (fragmentDrop i s) = activeContractId s"
  "completedContractCount (fragmentDrop i s) = completedContractCount s"
  "highTierContractsCompleted (fragmentDrop i s) = highTierContractsCompleted s"
  "protocolsUsed (fragmentDrop i s) = protocolsUsed s"
  "meta (fragmentDrop i s) = meta s"
  "stats (fragmentDrop i s) = stats s"
  "tickCount (fragmentDrop i s) = tickCount s"
  by (simp_all add: fragmentDrop_def)

lemma prestigeReadiness_frame:
  "version (prestigeReadiness s) = version s"
  "lastTickTime (prestigeReadiness s) = lastTickTime s"
  "resources (prestigeReadiness s) = resources s"
  "lanes (prestigeReadiness s) = lanes s"
  "modules (prestigeReadiness s) = modules s"
  "activeProtocol (prestigeReadiness s) = activeProtocol s"
  "upgradesPurchased (prestigeReadiness s) = upgradesPurchased s"
  "contracts (prestigeReadiness s) = contracts s"
  "activeContractId (prestigeReadiness s) = activeContractId s"
  "completedContractCount (prestigeReadiness s) = completedContractCount s"
  "highTierContractsCompleted (prestigeReadiness s) = highTierContractsCompleted s"
  "protocolsUsed (prestigeReadiness s) = protocolsUsed s"
  "meta (prestigeReadiness s) = meta s"
  "tickCount (prestigeReadiness s) = tickCount s"
  "playtimeSec (stats (prestigeReadiness s)) = playtimeSec (stats s)"
  "totalPayloadProduced (stats (prestigeReadiness s)) = totalPayloadProduced (stats s)"
  "totalCreditsEarned (stats (prestigeReadiness s)) = totalCreditsEarned (stats s)"
  by (simp_all add: prestigeReadiness_def)

lemma expiryStep_frame:
  "version (snd (expiryStep d cs)) = version (snd cs)"
  "lastTickTime (snd (expiryStep d cs)) = lastTickTime (snd cs)"
  "resources (snd (expiryStep d cs)) = resources (snd cs)"
  "lanes (snd (expiryStep d cs)) = lanes (snd cs)"
  "modules (snd (expiryStep d cs)) = modules (snd cs)"
  "activeProtocol (snd (expiryStep d cs)) = activeProtocol (snd cs)"
  "upgradesPurchased (snd (expiryStep d cs)) = upgradesPurchased (snd cs)"
  "contracts (snd (expiryStep d cs)) = contracts (snd cs)"
  "completedContractCount (snd (expiryStep d cs)) = completedContractCount (snd cs)"
  "highTierContractsCompleted (snd (expiryStep d cs)) = highTierContractsCompleted (snd cs)"
  "protocolsUsed (snd (expiryStep d cs)) = protocolsUsed (snd cs)"
  "meta (snd (expiryStep d cs)) = meta (snd cs)"
  "stats (snd (expiryStep d cs)) = stats (snd cs)"
  "tickCount (snd (expiryStep d cs)) = tickCount (snd cs)"
  by (cases cs; simp add: expiryStep_def Let_def split: option.splits)+

lemma expiryStep_contract:
  "cid (fst (expiryStep d cs)) = cid (fst cs)"
  "progressPayload (fst (expiryStep d cs)) = progressPayload (fst cs)"
  "targetPayload (fst (expiryStep d cs)) = targetPayload (fst cs)"
  "rewardCredits (fst (expiryStep d cs)) = rewardCredits (fst cs)"
  "rewardFragments (fst (expiryStep d cs)) = rewardFragments (fst cs)"
  "tier (fst (expiryStep d cs)) = tier (fst cs)"
  by (cases cs; simp add: expiryStep_def Let_def split: option.splits)+

lemma completionStep_frame:
  "version (snd (completionStep cs)) = version (snd cs)"
  "lastTickTime (snd (completionStep cs)) = lastTickTime (snd cs)"
  "lanes (snd (completionStep cs)) = lanes (snd cs)"
  "modules (snd (completionStep cs)) = modules (snd cs)"
  "activeProtocol (snd (completionStep cs)) = activeProtocol (snd cs)"
  "upgradesPurchased (snd (completionStep cs)) = upgradesPurchased (snd cs)"
  "contracts (snd (completionStep cs)) = contracts (snd cs)"
  "protocolsUsed (snd (completionStep cs)) = protocolsUsed (snd cs)"
  "meta (snd (completionStep cs)) = meta (snd cs)"
  "tickCount (snd (completionStep cs)) = tickCount (snd cs)"
  "playtimeSec (stats (snd (completionStep cs))) = playtimeSec (stats (snd cs))"
  "totalPayloadProduced (stats (snd (completionStep cs))) = totalPayloadProduced (stats (snd cs))"
  "prestigeReadyAt (stats (snd (completionStep cs))) = prestigeReadyAt (stats (snd cs))"
  "payload (resources (snd (completionStep cs))) = payload (resources (snd cs))"
  "scrap (resources (snd (completionStep cs))) = scrap (resources (snd cs))"
  "cid (fst (completionStep cs)) = cid (fst cs)"
  by (cases cs; simp add: completionStep_def)+

lemma contractProgress_frame:
  "version (contractProgress p d s) = version s"
  "lastTickTime (contractProgress p d s) = lastTickTime s"
  "lanes (contractProgress p d s) = lanes s"
  "modules (contractProgress p d s) = modules s"
  "activeProtocol (contractProgress p d s) = activeProtocol s"
  "upgradesPurchased (contractProgress p d s) = upgradesPurchased s"
  "protocolsUsed (contractProgress p d s) = protocolsUsed s"
  "meta (contractProgress p d s) = meta s"
  "tickCount (contractProgress p d s) = tickCount s"
  "playtimeSec (stats (contractProgress p d s)) = playtimeSec (stats s)"
  "totalPayloadProduced (stats (contractProgress p d s)) = totalPayloadProduced (stats s)"
  "prestigeReadyAt (stats (contractProgress p d s)) = prestigeReadyAt (stats s)"
  "payload (resources (contractProgress p d s)) = payload (resources s)"
  "scrap (resources (contractProgress p d s)) = scrap (resources s)"
  by (simp_all add: contractProgress_def case_prod_beta expiryStep_frame completionStep_frame
      split: option.splits)

lemma contractProgress_idle:
  "activeContractId s = None \<Longrightarrow> contractProgress p d s = s"
  by (simp add: contractProgress_def truthy_def)

lemma processTick_frame:
  "version (processTick s d) = version s"
  "lastTickTime (processTick s d) = lastTickTime s"
  "modules (processTick s d) = modules s"
  "activeProtocol (processTick s d) = activeProtocol s"
  "upgradesPurchased (processTick s d) = upgradesPurchased s"
  "protocolsUsed (processTick s d) = protocolsUsed s"
  "meta (processTick s d) = meta s"
  by (simp_all add: processTick_def prestigeReadiness_frame contractProgress_frame
      fragmentDrop_frame accumulate_frame)

lemma processTick_counters:
  "tickCount (processTick s d) = tickCount s + 1"
  "playtimeSec (stats (processTick s d)) = playtimeSec (stats s) + d"
  "totalPayloadProduced (stats (processTick s d))
     = totalPayloadProduced (stats s) + totalPayloadThisTick s d"
  "payload (resources (processTick s d)) = payload (resources s) + totalPayloadThisTick s d"
  "lanes (processTick s d) = fst (runLanes s d)"
  by (simp_all add: processTick_def prestigeReadiness_frame contractProgress_frame
      fragmentDrop_frame fragmentDrop_fields accumulate_fields)

lemma calculateFragmentInterval_cong:
  "activeProtocol s' = activeProtocol s \<Longrightarrow> upgradesPurchased s' = upgradesPurchased s
   \<Longrightarrow> meta s' = meta s \<Longrightarrow> calculateFragmentInterval s' = calculateFragmentInterval s"
  by (simp add: calculateFragmentInterval_def)

section \<open>Rates of a fresh run\<close>

lemma fresh_rates:
  assumes "modules s = initialModules" "activeProtocol s = burst"
    "upgradesPurchased s = Map.empty" "perks (meta s) = Map.empty"
  shows "calculateLaneThroughput (createLane i) s
           = \<lparr>processingCapacity = 56 / 5, outputMultiplier = 1, activeModuleCount = 1\<rparr>"
    and "calculateScrapGenRate s = 5 * real (length (lanes s))"
    and "calculateCreditRate s = 9 / 10"
    and "calculateFragmentInterval s = 33"
  using assms
  by (simp_all add: calculateLaneThroughput_def calculateScrapGenRate_def calculateCreditRate_def
      calculateFragmentInterval_def js_round_def createLane_def moduleStep_def lookup0_def)

lemma fresh_processLane:
  assumes "modules s = initialModules" "activeProtocol s = burst"
    "upgradesPurchased s = Map.empty" "perks (meta s) = Map.empty" "0 \<le> d"
  shows "processLane s d (5 * d) 0 0 (createLane i) = (createLane i, 5 * d)"
proof -
  have m: "min (5 * d) (56 * d / 5) = 5 * d"
    using \<open>0 \<le> d\<close> by (simp add: min_def)
  show ?thesis
    by (simp add: processLane_def fresh_rates(1) [OF assms(1-4)] Let_def m calculateLatency_def)
      (simp add: createLane_def m)
qed

lemma fresh_runLanes:
  assumes "lanes s = [createLane 0]" "modules s = initialModules" "activeProtocol s = burst"
    "upgradesPurchased s = Map.empty" "perks (meta s) = Map.empty" "0 \<le> d"
  shows "runLanes s d = ([createLane 0], 5 * d)"
  using assms(1)
  by (simp add: runLanes_def fresh_rates(2) [OF assms(2-5)] assms(4,5) lookup0_def
      fresh_processLane [OF assms(2-6)])
section \<open>Facts about board generation\<close>

lemma chooseLoop_take:
  "take 3 (chooseLoop ts seen chosen) = take 3 (chosen @ ts)"
proof (induction ts arbitrary: seen chosen)
  case Nil
  show ?case by simp
next
  case (Cons t ts)
  show ?case
  proof (cases "3 \<le> length chosen")
    case True
    then show ?thesis by simp
  next
    case False
    then have "chooseLoop (t # ts) seen chosen
        = chooseLoop ts (insert (t_protocol t) seen) (chosen @ [t])"
      by simp
    then have "take 3 (chooseLoop (t # ts) seen chosen) = take 3 ((chosen @ [t]) @ ts)"
      by (simp only: Cons.IH)
    also have "(chosen @ [t]) @ ts = chosen @ t # ts"
      by simp
    finally show ?thesis .
  qed
qed

lemma buildContractBoard_first_three:
  "buildContractBoard prestige seed
     = mapIndexed (instantiate seed) 0 (take 3 (shuffled prestige seed))"
  by (simp add: buildContractBoard_def chooseLoop_take)

lemma show_int_0: "show_int 0 = ''0''"
  by (simp add: show_int_def show_nat.simps digit_char_def)

lemma show_nat_small:
  "show_nat 0 = ''0''" "show_nat (Suc 0) = ''1''" "show_nat (Suc (Suc 0)) = ''2''"
proof -
  have "show_nat 2 = ''2''"
    by (simp add: show_nat.simps digit_char_def)
  then show "show_nat (Suc (Suc 0)) = ''2''"
    by (simp only: numeral_2_eq_2)
qed (simp_all add: show_nat.simps digit_char_def)

lemma shuffled_0_0:
  "map t_id (shuffled 0 0)
     = [''tpl_burst_low_1'', ''tpl_burst_low_2'', ''tpl_burst_mid_1'', ''tpl_secure_high_1'',
        ''tpl_secure_low_1'', ''tpl_secure_mid_1'', ''tpl_burst_high_1'', ''tpl_legacy_low_1'',
        ''tpl_legacy_mid_1'']"
  "map t_protocol (shuffled 0 0)
     = [burst, burst, burst, secure, secure, secure, burst, legacy, legacy]"
  by (simp_all add: shuffled_def CONTRACT_TEMPLATES_def deterministicHash_def show_int_0)

lemma take3_cases:
  obtains "take 3 xs = []"
  | a where "take 3 xs = [a]"
  | a b where "take 3 xs = [a, b]"
  | a b c where "take 3 xs = [a, b, c]"
proof (cases xs)
  case Nil
  then show ?thesis using that(1) by simp
next
  case (Cons a xs1)
  show ?thesis
  proof (cases xs1)
    case Nil
    with Cons show ?thesis using that(2) by simp
  next
    case (Cons b xs2)
    note c2 = this
    show ?thesis
    proof (cases xs2)
      case Nil
      with \<open>xs = a # xs1\<close> c2 show ?thesis using that(3) by simp
    next
      case (Cons c xs3)
      with \<open>xs = a # xs1\<close> c2 show ?thesis using that(4) by (simp add: numeral_3_eq_3)
    qed
  qed
qed

lemma board_0_0_ids:
  "map cid (buildContractBoard 0 0)
     = [''tpl_burst_low_1_run0_0'', ''tpl_burst_low_2_run0_1'', ''tpl_burst_mid_1_run0_2'']"
proof -
  have "map t_id (take 3 (shuffled 0 0))
      = [''tpl_burst_low_1'', ''tpl_burst_low_2'', ''tpl_burst_mid_1'']"
    by (simp add: take_map [symmetric] shuffled_0_0)
  then obtain a b c where abc: "take 3 (shuffled 0 0) = [a, b, c]"
    and ids: "t_id a = ''tpl_burst_low_1''" "t_id b = ''tpl_burst_low_2''"
      "t_id c = ''tpl_burst_mid_1''"
    by (cases rule: take3_cases [of "shuffled 0 0"]) auto
  show ?thesis
    by (simp add: buildContractBoard_first_three abc instantiate_def ids show_int_0
        show_nat_small)
qed

lemma board_0_0_protocols:
  "map protocol (buildContractBoard 0 0) = [burst, burst, burst]"
proof -
  have "map t_protocol (take 3 (shuffled 0 0)) = [burst, burst, burst]"
    by (simp add: take_map [symmetric] shuffled_0_0)
  then obtain a b c where abc: "take 3 (shuffled 0 0) = [a, b, c]"
    and ps: "t_protocol a = burst" "t_protocol b = burst" "t_protocol c = burst"
    by (cases rule: take3_cases [of "shuffled 0 0"]) auto
  show ?thesis
    by (simp add: buildContractBoard_first_three abc instantiate_def ps)
qed

section \<open>The layout of a clone\<close>

lemma length_fixed_objs: "length (fixed_objs n v) = 14"
  by (simp add: fixed_objs_def)

lemma length_lane_objs: "length (lane_objs m ls) = length ls"
  by (simp add: lane_objs_def)

lemma length_layout_objs:
  "length (layout_objs n v) = 14 + length (contracts v) + 2 * length (lanes v)"
  by (simp add: layout_objs_def length_fixed_objs length_lane_objs)

lemma length_refs:
  "length (contract_refs n v) = length (contracts v)"
  "length (lane_refs n v) = length (lanes v)"
  by (simp_all add: contract_refs_def lane_refs_def)

lemma root_obj_prims:
  "r_version (root_obj n v) = version v"
  "r_lastTickTime (root_obj n v) = lastTickTime v"
  "r_activeProtocol (root_obj n v) = activeProtocol v"
  "r_activeContractId (root_obj n v) = activeContractId v"
  "r_completedContractCount (root_obj n v) = completedContractCount v"
  "r_highTierContractsCompleted (root_obj n v) = highTierContractsCompleted v"
  "r_tickCount (root_obj n v) = tickCount v"
  by (simp_all add: root_obj_def)

lemma meta_obj_prims:
  "m_prestigeCount (meta_obj n v) = prestigeCount (meta v)"
  "m_totalReputation (meta_obj n v) = totalReputation (meta v)"
  "m_spentReputation (meta_obj n v) = spentReputation (meta v)"
  by (simp_all add: meta_obj_def)

lemma deref_append_old: "a < length h \<Longrightarrow> deref (h @ e) a = deref h a"
  by (simp add: deref_def nth_append)

lemma deref_root:
  "deref (h @ layout_objs (length h) v) (length h) = Some (ORoot (root_obj (length h) v))"
  by (simp add: deref_def layout_objs_def fixed_objs_def nth_append)

lemma deref_refs:
  "deref (h @ layout_objs (length h) v) (r_resources (root_obj (length h) v))
     = Some (OPool (resources v))"
  "deref (h @ layout_objs (length h) v) (r_stats (root_obj (length h) v))
     = Some (OStats (stats v))"
  "deref (h @ layout_objs (length h) v) (r_meta (root_obj (length h) v))
     = Some (OMeta (meta_obj (length h) v))"
  "deref (h @ layout_objs (length h) v) (m_perks (meta_obj (length h) v))
     = Some (OLevels (perks (meta v)))"
  "deref (h @ layout_objs (length h) v) (r_upgradesPurchased (root_obj (length h) v))
     = Some (OLevels (upgradesPurchased v))"
  "deref (h @ layout_objs (length h) v) (r_modules (root_obj (length h) v))
     = Some (OModules (module_refs (length h)))"
  "deref (h @ layout_objs (length h) v) (r_protocolsUsed (root_obj (length h) v))
     = Some (OSet (protocolsUsed v))"
  "deref (h @ layout_objs (length h) v) (r_lanes (root_obj (length h) v))
     = Some (OArr (lane_refs (length h) v))"
  "deref (h @ layout_objs (length h) v) (r_contracts (root_obj (length h) v))
     = Some (OArr (contract_refs (length h) v))"
  by (simp_all add: deref_def layout_objs_def fixed_objs_def nth_append root_obj_def meta_obj_def)

lemma deref_modinfo:
  "deref (h @ layout_objs (length h) v) (module_refs (length h) m) = Some (OModInfo (modules v m))"
  by (cases m)
    (simp_all add: deref_def layout_objs_def fixed_objs_def nth_append module_refs_def)

lemma deref_contract:
  "j < length (contracts v)
   \<Longrightarrow> deref (h @ layout_objs (length h) v) (contract_refs (length h) v ! j)
       = Some (OContract (contracts v ! j))"
  by (simp add: deref_def layout_objs_def nth_append length_fixed_objs length_lane_objs
      contract_refs_def)

lemma deref_lane:
  "i < length (lanes v)
   \<Longrightarrow> deref (h @ layout_objs (length h) v) (lane_refs (length h) v ! i)
       = Some (OLane (lane_obj (length h + 14 + length (contracts v) + length (lanes v) + i)
                        (lanes v ! i)))"
  by (simp add: deref_def layout_objs_def nth_append length_fixed_objs length_lane_objs
      lane_objs_def lane_refs_def)

lemma deref_modlist:
  "i < length (lanes v)
   \<Longrightarrow> deref (h @ layout_objs (length h) v)
         (length h + 14 + length (contracts v) + length (lanes v) + i)
       = Some (OModList (enabledModules (lanes v ! i)))"
  by (simp add: deref_def layout_objs_def nth_append length_fixed_objs length_lane_objs)

lemma those_map_Some: "those (map Some xs) = Some xs"
  by (induction xs) simp_all

lemma those_index:
  assumes "length ys = length xs" "\<And>i. i < length xs \<Longrightarrow> f (ys ! i) = Some (xs ! i)"
  shows "those (map f ys) = Some xs"
proof -
  have "map f ys = map Some xs"
    using assms by (intro nth_equalityI) simp_all
  then show ?thesis
    by (simp add: those_map_Some)
qed

lemma read_clone:
  "read_state (h @ layout_objs (length h) v) (length h) = Some v"
proof -
  let ?n = "length h"
  let ?H = "h @ layout_objs ?n v"
  let ?r = "root_obj ?n v"
  have pool: "read_pool ?H (r_resources ?r) = Some (resources v)"
    by (simp add: read_pool_def deref_refs)
  have st: "read_stats ?H (r_stats ?r) = Some (stats v)"
    by (simp add: read_stats_def deref_refs)
  have perks: "read_levels ?H (m_perks (meta_obj ?n v)) = Some (perks (meta v))"
    by (simp add: read_levels_def deref_refs)
  have me: "read_meta ?H (r_meta ?r) = Some (meta v)"
    by (simp add: read_meta_def deref_refs perks meta_obj_prims)
  have us: "read_levels ?H (r_upgradesPurchased ?r) = Some (upgradesPurchased v)"
    by (simp add: read_levels_def deref_refs)
  have mi: "read_modinfo ?H (module_refs ?n m) = Some (modules v m)" for m
    by (simp add: read_modinfo_def deref_modinfo)
  have "(\<lambda>m. case m of decrypt \<Rightarrow> modules v decrypt | checksum \<Rightarrow> modules v checksum
            | compress \<Rightarrow> modules v compress | tag \<Rightarrow> modules v tag) = modules v"
    by (auto simp: fun_eq_iff split: ModuleType.splits)
  then have ms: "read_modules ?H (r_modules ?r) = Some (modules v)"
    by (simp add: read_modules_def deref_refs mi)
  have ps: "read_set ?H (r_protocolsUsed ?r) = Some (protocolsUsed v)"
    by (simp add: read_set_def deref_refs)
  have lane: "read_lane ?H (lane_refs ?n v ! i) = Some (lanes v ! i)"
    if "i < length (lanes v)" for i
    using that by (simp add: read_lane_def deref_lane lane_obj_def read_modlist_def deref_modlist)
  have ls: "read_array read_lane ?H (r_lanes ?r) = Some (lanes v)"
    by (simp add: read_array_def deref_refs) (rule those_index; simp add: lane length_refs)
  have con: "read_contract ?H (contract_refs ?n v ! j) = Some (contracts v ! j)"
    if "j < length (contracts v)" for j
    using that by (simp add: read_contract_def deref_contract)
  have cs: "read_array read_contract ?H (r_contracts ?r) = Some (contracts v)"
    by (simp add: read_array_def deref_refs) (rule those_index; simp add: con length_refs)
  show ?thesis
    by (simp add: read_state_def deref_root root_obj_prims pool st me us ms ps ls cs)
qed

section \<open>Reading survives growth of the store\<close>

lemma deref_ext: "deref h a = Some x \<Longrightarrow> deref (h @ e) a = Some x"
  by (auto simp: deref_def nth_append split: if_splits)

lemma read_pool_ext: "read_pool h a = Some p \<Longrightarrow> read_pool (h @ e) a = Some p"
proof -
  assume "read_pool h a = Some p"
  then have "deref h a = Some (OPool p)"
    by (simp add: read_pool_def split: option.splits obj.splits)
  then have "deref (h @ e) a = Some (OPool p)"
    by (rule deref_ext)
  then show ?thesis
    by (simp add: read_pool_def)
qed

lemma read_stats_ext: "read_stats h a = Some st \<Longrightarrow> read_stats (h @ e) a = Some st"
proof -
  assume "read_stats h a = Some st"
  then have "deref h a = Some (OStats st)"
    by (simp add: read_stats_def split: option.splits obj.splits)
  then have "deref (h @ e) a = Some (OStats st)"
    by (rule deref_ext)
  then show ?thesis
    by (simp add: read_stats_def)
qed

lemma read_levels_ext: "read_levels h a = Some lv \<Longrightarrow> read_levels (h @ e) a = Some lv"
proof -
  assume "read_levels h a = Some lv"
  then have "deref h a = Some (OLevels lv)"
    by (simp add: read_levels_def split: option.splits obj.splits)
  then have "deref (h @ e) a = Some (OLevels lv)"
    by (rule deref_ext)
  then show ?thesis
    by (simp add: read_levels_def)
qed

lemma read_set_ext: "read_set h a = Some ps \<Longrightarrow> read_set (h @ e) a = Some ps"
proof -
  assume "read_set h a = Some ps"
  then have "deref h a = Some (OSet ps)"
    by (simp add: read_set_def split: option.splits obj.splits)
  then have "deref (h @ e) a = Some (OSet ps)"
    by (rule deref_ext)
  then show ?thesis
    by (simp add: read_set_def)
qed

lemma read_modinfo_ext: "read_modinfo h a = Some mi \<Longrightarrow> read_modinfo (h @ e) a = Some mi"
proof -
  assume "read_modinfo h a = Some mi"
  then have "deref h a = Some (OModInfo mi)"
    by (simp add: read_modinfo_def split: option.splits obj.splits)
  then have "deref (h @ e) a = Some (OModInfo mi)"
    by (rule deref_ext)
  then show ?thesis
    by (simp add: read_modinfo_def)
qed

lemma read_modlist_ext: "read_modlist h a = Some ml \<Longrightarrow> read_modlist (h @ e) a = Some ml"
proof -
  assume "read_modlist h a = Some ml"
  then have "deref h a = Some (OModList ml)"
    by (simp add: read_modlist_def split: option.splits obj.splits)
  then have "deref (h @ e) a = Some (OModList ml)"
    by (rule deref_ext)
  then show ?thesis
    by (simp add: read_modlist_def)
qed

lemma read_contract_ext: "read_contract h a = Some c \<Longrightarrow> read_contract (h @ e) a = Some c"
proof -
  assume "read_contract h a = Some c"
  then have "deref h a = Some (OContract c)"
    by (simp add: read_contract_def split: option.splits obj.splits)
  then have "deref (h @ e) a = Some (OContract c)"
    by (rule deref_ext)
  then show ?thesis
    by (simp add: read_contract_def)
qed

lemma read_lane_ext: "read_lane h a = Some l \<Longrightarrow> read_lane (h @ e) a = Some l"
proof -
  assume rd: "read_lane h a = Some l"
  then obtain lo where lo: "deref h a = Some (OLane lo)"
    by (auto simp: read_lane_def split: option.splits obj.splits)
  with rd obtain ms where ms: "read_modlist h (l_enabledModules lo) = Some ms"
    by (auto simp: read_lane_def bind_eq_Some_conv)
  show ?thesis
    using rd by (simp add: read_lane_def lo deref_ext [OF lo] ms read_modlist_ext [OF ms])
qed

lemma read_meta_ext: "read_meta h a = Some m \<Longrightarrow> read_meta (h @ e) a = Some m"
proof -
  assume rd: "read_meta h a = Some m"
  then obtain mo where mo: "deref h a = Some (OMeta mo)"
    by (auto simp: read_meta_def split: option.splits obj.splits)
  with rd obtain ps where ps: "read_levels h (m_perks mo) = Some ps"
    by (auto simp: read_meta_def bind_eq_Some_conv)
  show ?thesis
    using rd by (simp add: read_meta_def mo deref_ext [OF mo] ps read_levels_ext [OF ps])
qed

lemma read_modules_ext: "read_modules h a = Some m \<Longrightarrow> read_modules (h @ e) a = Some m"
proof -
  assume rd: "read_modules h a = Some m"
  then obtain f where f: "deref h a = Some (OModules f)"
    by (auto simp: read_modules_def split: option.splits obj.splits)
  with rd obtain d c z t where mi: "read_modinfo h (f decrypt) = Some d"
    "read_modinfo h (f checksum) = Some c" "read_modinfo h (f compress) = Some z"
    "read_modinfo h (f tag) = Some t"
    by (auto simp: read_modules_def bind_eq_Some_conv)
  show ?thesis
    using rd
    by (simp add: read_modules_def f deref_ext [OF f] mi read_modinfo_ext [OF mi(1)]
        read_modinfo_ext [OF mi(2)] read_modinfo_ext [OF mi(3)] read_modinfo_ext [OF mi(4)])
qed

lemma those_ext:
  assumes "\<And>a x. rd h a = Some x \<Longrightarrow> rd h' a = Some x"
  shows "those (map (rd h) refs) = Some xs \<Longrightarrow> those (map (rd h') refs) = Some xs"
proof (induction refs arbitrary: xs)
  case Nil
  then show ?case by simp
next
  case (Cons a refs)
  then show ?case
    by (auto simp: assms split: option.splits)
qed

lemma read_array_ext:
  assumes "\<And>a x. rd h a = Some x \<Longrightarrow> rd (h @ e) a = Some x"
    and rd: "read_array rd h a = Some xs"
  shows "read_array rd (h @ e) a = Some xs"
proof -
  from rd obtain refs where refs: "deref h a = Some (OArr refs)"
    by (auto simp: read_array_def split: option.splits obj.splits)
  with rd have "those (map (rd h) refs) = Some xs"
    by (simp add: read_array_def)
  then have "those (map (rd (h @ e)) refs) = Some xs"
    by (rule those_ext [rotated]) (rule assms(1))
  then show ?thesis
    by (simp add: read_array_def deref_ext [OF refs])
qed

lemma read_state_ext:
  assumes "read_state h a = Some v"
  shows "read_state (h @ e) a = Some v"
proof -
  from assms obtain r where r: "deref h a = Some (ORoot r)"
    by (auto simp: read_state_def split: option.splits obj.splits)
  from assms r obtain pool ls ms us cs ps me st
    where parts: "read_pool h (r_resources r) = Some pool"
      "read_array read_lane h (r_lanes r) = Some ls"
      "read_modules h (r_modules r) = Some ms"
      "read_levels h (r_upgradesPurchased r) = Some us"
      "read_array read_contract h (r_contracts r) = Some cs"
      "read_set h (r_protocolsUsed r) = Some ps"
      "read_meta h (r_meta r) = Some me"
      "read_stats h (r_stats r) = Some st"
    by (auto simp: read_state_def bind_eq_Some_conv)
  have parts': "read_pool (h @ e) (r_resources r) = Some pool"
      "read_array read_lane (h @ e) (r_lanes r) = Some ls"
      "read_modules (h @ e) (r_modules r) = Some ms"
      "read_levels (h @ e) (r_upgradesPurchased r) = Some us"
      "read_array read_contract (h @ e) (r_contracts r) = Some cs"
      "read_set (h @ e) (r_protocolsUsed r) = Some ps"
      "read_meta (h @ e) (r_meta r) = Some me"
      "read_stats (h @ e) (r_stats r) = Some st"
    using parts
    by (simp_all add: read_pool_ext read_stats_ext read_levels_ext read_set_ext read_meta_ext
        read_modules_ext read_array_ext [where rd = read_lane, OF read_lane_ext]
        read_array_ext [where rd = read_contract, OF read_contract_ext])
  show ?thesis
    using assms r
    by (simp add: read_state_def deref_ext [OF r] parts parts')
qed

section \<open>Assignments on a clone\<close>

lemma upd_stats_clone:
  "upd_stats f (h @ layout_objs (length h) v) (length h)
     = Some (h @ layout_objs (length h) (v\<lparr>stats := f (stats v)\<rparr>))"
  by (simp add: upd_stats_def deref_root deref_refs)
    (simp add: root_obj_def layout_objs_def fixed_objs_def meta_obj_def lane_refs_def
      contract_refs_def list_update_append)

lemma upd_pool_clone:
  "upd_pool f (h @ layout_objs (length h) v) (length h)
     = Some (h @ layout_objs (length h) (v\<lparr>resources := f (resources v)\<rparr>))"
  by (simp add: upd_pool_def deref_root deref_refs)
    (simp add: root_obj_def layout_objs_def fixed_objs_def meta_obj_def lane_refs_def
      contract_refs_def list_update_append)

lemma upd_root_clone:
  assumes "f (root_obj (length h) v) = root_obj (length h) v'"
    and "resources v' = resources v" "lanes v' = lanes v" "modules v' = modules v"
    and "upgradesPurchased v' = upgradesPurchased v" "contracts v' = contracts v"
    and "protocolsUsed v' = protocolsUsed v" "meta v' = meta v" "stats v' = stats v"
  shows "upd_root f (h @ layout_objs (length h) v) (length h)
       = Some (h @ layout_objs (length h) v')"
  using assms
  by (simp add: upd_root_def deref_root)
    (simp add: layout_objs_def fixed_objs_def meta_obj_def lane_refs_def contract_refs_def
      list_update_append)

lemma lane_objs_update:
  "i < length ls \<Longrightarrow> lane_objs m (ls[i := y]) = (lane_objs m ls)[i := OLane (lane_obj (m + i) y)]"
  by (auto simp: lane_objs_def intro!: nth_equalityI simp: nth_list_update)

lemma upd_lane_clone:
  assumes i: "i < length (lanes v)"
    and f: "\<And>m l. f (lane_obj m l) = lane_obj m (g l)"
    and g: "\<And>l. enabledModules (g l) = enabledModules l"
  shows "upd_lane i f (h @ layout_objs (length h) v) (length h)
       = Some (h @ layout_objs (length h) (v\<lparr>lanes := (lanes v)[i := g (lanes v ! i)]\<rparr>))"
proof -
  let ?n = "length h"
  let ?ls' = "(lanes v)[i := g (lanes v ! i)]"
  have ml: "map (\<lambda>l. OModList (enabledModules l)) ?ls' = map (\<lambda>l. OModList (enabledModules l)) (lanes v)"
    using i by (intro nth_equalityI) (simp_all add: nth_list_update g)
  have idx: "lane_refs ?n v ! i = ?n + (14 + (length (contracts v) + i))"
    using i by (simp add: lane_refs_def)
  have "upd_lane i f (h @ layout_objs ?n v) ?n
      = Some ((h @ layout_objs ?n v)
          [lane_refs ?n v ! i := OLane (lane_obj (?n + 14 + length (contracts v) + length (lanes v) + i)
                                           (g (lanes v ! i)))])"
    using i by (simp add: upd_lane_def deref_root deref_refs length_refs deref_lane f)
  also have "(h @ layout_objs ?n v)
          [lane_refs ?n v ! i := OLane (lane_obj (?n + 14 + length (contracts v) + length (lanes v) + i)
                                           (g (lanes v ! i)))]
      = h @ layout_objs ?n (v\<lparr>lanes := ?ls'\<rparr>)"
    using i unfolding idx
    by (simp add: layout_objs_def list_update_append length_fixed_objs length_lane_objs
        lane_objs_update ml)
      (simp add: fixed_objs_def root_obj_def meta_obj_def lane_refs_def contract_refs_def)
  finally show ?thesis .
qed

lemma upd_contract_clone:
  assumes j: "j < length (contracts v)"
  shows "upd_contract j f (h @ layout_objs (length h) v) (length h)
       = Some (h @ layout_objs (length h)
                 (v\<lparr>contracts := (contracts v)[j := f (contracts v ! j)]\<rparr>))"
proof -
  let ?n = "length h"
  have idx: "contract_refs ?n v ! j = ?n + (14 + j)"
    using j by (simp add: contract_refs_def)
  have "upd_contract j f (h @ layout_objs ?n v) ?n
      = Some ((h @ layout_objs ?n v)[contract_refs ?n v ! j := OContract (f (contracts v ! j))])"
    using j by (simp add: upd_contract_def deref_root deref_refs length_refs deref_contract)
  also have "(h @ layout_objs ?n v)[contract_refs ?n v ! j := OContract (f (contracts v ! j))]
      = h @ layout_objs ?n (v\<lparr>contracts := (contracts v)[j := f (contracts v ! j)]\<rparr>)"
    using j unfolding idx
    by (simp add: layout_objs_def list_update_append length_fixed_objs map_update)
      (simp add: fixed_objs_def root_obj_def meta_obj_def lane_refs_def contract_refs_def)
  finally show ?thesis .
qed

section \<open>The phases of the tick on a clone\<close>

lemma upd_lane_queue:
  "i < length (lanes v)
   \<Longrightarrow> upd_lane i (l_queue_update (\<lambda>_. q)) (h @ layout_objs (length h) v) (length h)
       = Some (h @ layout_objs (length h) (v\<lparr>lanes := (lanes v)[i := (lanes v ! i)\<lparr>queue := q\<rparr>]\<rparr>))"
  by (rule upd_lane_clone [where g = "\<lambda>l. l\<lparr>queue := q\<rparr>"]) (simp_all add: lane_obj_def)

lemma upd_lane_heat:
  "i < length (lanes v)
   \<Longrightarrow> upd_lane i (l_heat_update (\<lambda>_. x)) (h @ layout_objs (length h) v) (length h)
       = Some (h @ layout_objs (length h) (v\<lparr>lanes := (lanes v)[i := (lanes v ! i)\<lparr>heat := x\<rparr>]\<rparr>))"
  by (rule upd_lane_clone [where g = "\<lambda>l. l\<lparr>heat := x\<rparr>"]) (simp_all add: lane_obj_def)

lemma lane_loop_clone:
  assumes inp: "read_state h a = Some sv"
  shows "length (lanes v) = length (lanes sv) \<Longrightarrow> drop k (lanes v) = drop k (lanes sv)
    \<Longrightarrow> k \<le> length (lanes sv) \<Longrightarrow> m = length (lanes sv) - k
    \<Longrightarrow> lane_loop_h a (length h) d spl qt tlr [k ..< length (lanes sv)] acc
          (h @ layout_objs (length h) v)
        = Some (h @ layout_objs (length h)
                  (v\<lparr>lanes := take k (lanes v)
                       @ fst (laneLoop (processLane sv d spl qt tlr) (drop k (lanes sv)) acc)\<rparr>),
                snd (laneLoop (processLane sv d spl qt tlr) (drop k (lanes sv)) acc))"
proof (induction m arbitrary: k v acc)
  case 0
  then have "k = length (lanes sv)" by simp
  with 0 show ?case
    by simp
next
  case (Suc m)
  let ?n = "length h"
  let ?H = "\<lambda>x. h @ layout_objs ?n x"
  have k: "k < length (lanes sv)" "k < length (lanes v)"
    using Suc.prems by simp_all
  have lk: "lanes v ! k = lanes sv ! k"
  proof -
    have "drop k (lanes v) ! 0 = drop k (lanes sv) ! 0"
      using Suc.prems(2) by simp
    then show ?thesis using k by simp
  qed
  define thr where "thr = calculateLaneThroughput (lanes sv ! k) sv"
  define q1 where "q1 = queue (lanes sv ! k) + spl"
  define toProcess where "toProcess = min q1 (processingCapacity thr * d)"
  define q2 where "q2 = max 0 (q1 - toProcess)"
  define pen where "pen = penalty (calculateLatency (real (activeModuleCount thr)) q2 qt tlr)"
  define l' where "l' = (lanes sv ! k)\<lparr>queue := q2, heat := max 0 (1 - pen)\<rparr>"
  define v3 where "v3 = v\<lparr>lanes := (lanes v)[k := l']\<rparr>"
  have pl: "processLane sv d spl qt tlr (lanes sv ! k) = (l', toProcess * outputMultiplier thr * pen)"
    by (simp add: processLane_def Let_def thr_def q1_def toProcess_def q2_def pen_def l'_def)
  have step: "lane_loop_h a ?n d spl qt tlr (k # [Suc k ..< length (lanes sv)]) acc (?H v)
      = lane_loop_h a ?n d spl qt tlr [Suc k ..< length (lanes sv)]
          (acc + toProcess * outputMultiplier thr * pen) (?H v3)"
    using k
    by (simp add: read_state_ext [OF inp] read_clone lk upd_lane_queue upd_lane_heat Let_def
        thr_def q1_def toProcess_def q2_def pen_def l'_def v3_def)
  have ih: "lane_loop_h a ?n d spl qt tlr [Suc k ..< length (lanes sv)]
          (acc + toProcess * outputMultiplier thr * pen) (?H v3)
      = Some (?H (v3\<lparr>lanes := take (Suc k) (lanes v3)
                   @ fst (laneLoop (processLane sv d spl qt tlr) (drop (Suc k) (lanes sv))
                            (acc + toProcess * outputMultiplier thr * pen))\<rparr>),
              snd (laneLoop (processLane sv d spl qt tlr) (drop (Suc k) (lanes sv))
                     (acc + toProcess * outputMultiplier thr * pen)))"
  proof (rule Suc.IH)
    show "length (lanes v3) = length (lanes sv)"
      using Suc.prems(1) by (simp add: v3_def)
    have "drop (Suc k) (lanes v3) = drop (Suc k) (lanes v)"
      by (simp add: v3_def)
    also have "\<dots> = drop (Suc k) (lanes sv)"
      using Suc.prems(2) by (metis drop_Suc tl_drop)
    finally show "drop (Suc k) (lanes v3) = drop (Suc k) (lanes sv)" .
    show "Suc k \<le> length (lanes sv)"
      using k by simp
    show "m = length (lanes sv) - Suc k"
      using Suc.prems(4) by simp
  qed
  have dr: "drop k (lanes sv) = (lanes sv ! k) # drop (Suc k) (lanes sv)"
    using k by (simp add: Cons_nth_drop_Suc)
  have tk: "take (Suc k) ((lanes v)[k := l']) = take k (lanes v) @ [l']"
    using k by (simp add: take_Suc_conv_app_nth)
  have upt: "[k ..< length (lanes sv)] = k # [Suc k ..< length (lanes sv)]"
    using k by (simp add: upt_conv_Cons)
  show ?case
    unfolding upt step ih dr
    by (simp add: pl tk v3_def split: prod.splits)
qed

lemma lanes_clone:
  assumes inp: "read_state h a = Some sv" and same: "lanes v = lanes sv"
  shows "lanes_h a (length h) d (h @ layout_objs (length h) v)
       = Some (h @ layout_objs (length h) (v\<lparr>lanes := fst (runLanes sv d)\<rparr>),
               snd (runLanes sv d))"
  using lane_loop_clone [OF inp, where v = v and k = 0 and m = "length (lanes sv)"] same
  by (simp add: lanes_h_def read_state_ext [OF inp] read_clone runLanes_def Let_def)

lemma credit_clone:
  assumes inp: "read_state h a = Some sv"
  shows "credit_h a (length h) tot (h @ layout_objs (length h) v)
       = Some (h @ layout_objs (length h)
           (v\<lparr>resources := (resources v)
                  \<lparr>payload := payload (resources v) + tot,
                   credits := credits (resources v) + tot * calculateCreditRate sv\<rparr>,
              stats := (stats v)
                  \<lparr>totalPayloadProduced := totalPayloadProduced (stats v) + tot,
                   totalCreditsEarned := totalCreditsEarned (stats v)
                     + tot * calculateCreditRate sv\<rparr>\<rparr>))"
  by (simp add: credit_h_def upd_pool_clone upd_stats_clone read_state_ext [OF inp] Let_def)

lemma fragment_clone:
  assumes inp: "read_state h a = Some sv"
  shows "fragment_h a (length h) (h @ layout_objs (length h) v)
       = Some (h @ layout_objs (length h) (fragmentDrop (calculateFragmentInterval sv) v))"
  by (simp add: fragment_h_def upd_pool_clone read_state_ext [OF inp] read_clone Let_def
      fragmentDrop_def)

lemma readiness_clone:
  "readiness_h (length h) (h @ layout_objs (length h) v)
     = Some (h @ layout_objs (length h) (prestigeReadiness v))"
  by (simp add: readiness_h_def upd_stats_clone read_clone prestigeReadiness_def)

lemma upd_root_pointer:
  "upd_root (r_activeContractId_update (\<lambda>_. None)) (h @ layout_objs (length h) v) (length h)
     = Some (h @ layout_objs (length h) (v\<lparr>activeContractId := None\<rparr>))"
  by (rule upd_root_clone) (simp_all add: root_obj_def)

lemma upd_root_tick:
  "upd_root (\<lambda>r. r\<lparr>r_tickCount := Suc (r_tickCount r)\<rparr>) (h @ layout_objs (length h) v) (length h)
     = Some (h @ layout_objs (length h) (v\<lparr>tickCount := Suc (tickCount v)\<rparr>))"
  by (rule upd_root_clone) (simp_all add: root_obj_def)

lemma upd_root_completed:
  "upd_root (\<lambda>r. r\<lparr>r_completedContractCount := Suc (r_completedContractCount r)\<rparr>)
       (h @ layout_objs (length h) v) (length h)
     = Some (h @ layout_objs (length h)
               (v\<lparr>completedContractCount := Suc (completedContractCount v)\<rparr>))"
  by (rule upd_root_clone) (simp_all add: root_obj_def)

lemma upd_root_highTier:
  "upd_root (\<lambda>r. r\<lparr>r_highTierContractsCompleted := Suc (r_highTierContractsCompleted r)\<rparr>)
       (h @ layout_objs (length h) v) (length h)
     = Some (h @ layout_objs (length h)
               (v\<lparr>highTierContractsCompleted := Suc (highTierContractsCompleted v)\<rparr>))"
  by (rule upd_root_clone) (simp_all add: root_obj_def)

lemma findIndex_Some:
  assumes "findIndex P xs = Some j"
  shows "j < length xs" and "P (xs ! j)" and "List.find P xs = Some (xs ! j)"
    and "replaceFirst P y xs = xs[j := y]"
  using assms
  by (induction xs arbitrary: j; auto split: if_splits)+

lemma findIndex_None: "findIndex P xs = None \<Longrightarrow> List.find P xs = None"
  by (induction xs) (auto split: if_splits)

lemma expiryStep_contracts:
  "expiryStep d (c, v\<lparr>contracts := X\<rparr>)
     = (fst (expiryStep d (c, v)), (snd (expiryStep d (c, v)))\<lparr>contracts := X\<rparr>)"
  by (simp add: expiryStep_def Let_def split: option.splits)

lemma completionStep_contracts:
  "completionStep (c, v\<lparr>contracts := X\<rparr>)
     = (fst (completionStep (c, v)), (snd (completionStep (c, v)))\<lparr>contracts := X\<rparr>)"
  by (simp add: completionStep_def)

lemma expiry_clone:
  assumes j: "j < length (contracts v)"
  shows "expiry_h (length h) j d (h @ layout_objs (length h) v)
       = Some (h @ layout_objs (length h)
           ((snd (expiryStep d (contracts v ! j, v)))
              \<lparr>contracts := (contracts v)[j := fst (expiryStep d (contracts v ! j, v))]\<rparr>))"
  using j
  apply (simp add: expiry_h_def read_clone upd_contract_clone upd_root_pointer expiryStep_def
      Let_def split: option.splits)
  apply (intro allI impI conjI arg_cong [where f = "layout_objs (length h)"] GameState.equality;
      simp)
  done

lemma completion_clone:
  assumes j: "j < length (contracts v)"
  shows "completion_h (length h) j (h @ layout_objs (length h) v)
       = Some (h @ layout_objs (length h)
           ((snd (completionStep (contracts v ! j, v)))
              \<lparr>contracts := (contracts v)[j := fst (completionStep (contracts v ! j, v))]\<rparr>))"
  using j
  apply (simp add: completion_h_def read_clone upd_contract_clone upd_root_pointer
      upd_root_completed upd_root_highTier upd_pool_clone upd_stats_clone completionStep_def
      Let_def)
  apply (intro allI impI conjI arg_cong [where f = "layout_objs (length h)"] GameState.equality;
      simp)
  done


lemma contract_clone:
  "contract_h (length h) tot d (h @ layout_objs (length h) v)
     = Some (h @ layout_objs (length h) (contractProgress tot d v))"
proof (cases "truthy (activeContractId v)")
  case False
  then show ?thesis
    by (simp add: contract_h_def read_clone contractProgress_def)
next
  case True
  let ?P = "\<lambda>c. Some (cid c) = activeContractId v"
  show ?thesis
  proof (cases "findIndex ?P (contracts v)")
    case None
    then show ?thesis
      using True findIndex_None [OF None]
      by (simp add: contract_h_def read_clone contractProgress_def)
  next
    case (Some j)
    note fi = findIndex_Some [OF Some]
    let ?cs = "contracts v"
    show ?thesis
    proof (cases "active (?cs ! j)")
      case False
      then show ?thesis
        using True Some fi(3)
        by (simp add: contract_h_def read_clone contractProgress_def)
    next
      case act: True
      define c0 where "c0 = (?cs ! j)\<lparr>progressPayload := progressPayload (?cs ! j) + tot\<rparr>"
      define E where "E = expiryStep d (c0, v)"
      define C where "C = completionStep E"
      define v1 where "v1 = v\<lparr>contracts := ?cs[j := c0]\<rparr>"
      define v2 where "v2 = (snd E)\<lparr>contracts := ?cs[j := fst E]\<rparr>"
      have j: "j < length ?cs" by (rule fi(1))
      have s1: "upd_contract j (\<lambda>c. c\<lparr>progressPayload := progressPayload c + tot\<rparr>)
                  (h @ layout_objs (length h) v) (length h)
                = Some (h @ layout_objs (length h) v1)"
        unfolding v1_def c0_def by (rule upd_contract_clone [OF j])
      have j1: "j < length (contracts v1)" and c1: "contracts v1 ! j = c0"
        using j by (simp_all add: v1_def)
      have e1: "expiryStep d (c0, v1) = (fst E, (snd E)\<lparr>contracts := ?cs[j := c0]\<rparr>)"
        unfolding v1_def E_def by (rule expiryStep_contracts)
      have s2: "expiry_h (length h) j d (h @ layout_objs (length h) v1)
                = Some (h @ layout_objs (length h) v2)"
        by (simp add: expiry_clone [OF j1] c1 e1 v2_def) (simp add: v1_def)
      have j2: "j < length (contracts v2)" and c2: "contracts v2 ! j = fst E"
        using j by (simp_all add: v2_def)
      have e2: "completionStep (fst E, v2)
                = (fst C, (snd C)\<lparr>contracts := ?cs[j := fst E]\<rparr>)"
        unfolding v2_def C_def using completionStep_contracts [where c = "fst E" and v = "snd E"] by simp
      have s3: "completion_h (length h) j (h @ layout_objs (length h) v2)
                = Some (h @ layout_objs (length h) ((snd C)\<lparr>contracts := ?cs[j := fst C]\<rparr>))"
        by (simp add: completion_clone [OF j2] c2 e2) (simp add: v2_def)
      have lhs: "contract_h (length h) tot d (h @ layout_objs (length h) v)
                = Some (h @ layout_objs (length h) ((snd C)\<lparr>contracts := ?cs[j := fst C]\<rparr>))"
        using True Some act by (simp add: contract_h_def read_clone s1 s2 s3)
      have rhs: "contractProgress tot d v = (snd C)\<lparr>contracts := ?cs[j := fst C]\<rparr>"
        using True act fi(3) fi(4) [where y = "fst C"]
        by (simp add: contractProgress_def C_def E_def c0_def case_prod_beta)
      show ?thesis by (simp only: lhs rhs)
    qed
  qed
qed
section \<open>The tick on the store computes the tick on values\<close>

lemma processTick_h_result:
  assumes inp: "read_state h a = Some sv"
  shows "processTick_h h a d
       = Some (h @ layout_objs (length h) (processTick sv d), length h)"
proof -
  let ?n = "length h"
  let ?H = "\<lambda>v. h @ layout_objs ?n v"
  define v2 where "v2 = sv\<lparr>stats := (stats sv)\<lparr>playtimeSec := playtimeSec (stats sv) + d\<rparr>\<rparr>"
  define v3 where "v3 = v2\<lparr>tickCount := tickCount v2 + 1\<rparr>"
  define v4 where "v4 = v3\<lparr>lanes := fst (runLanes sv d)\<rparr>"
  define tot where "tot = snd (runLanes sv d)"
  have s0: "clone h a = Some (?H sv, ?n)"
    by (simp add: clone_def inp)
  have s1: "upd_stats (\<lambda>st. st\<lparr>playtimeSec := playtimeSec st + d\<rparr>) (?H sv) ?n = Some (?H v2)"
    unfolding v2_def by (rule upd_stats_clone)
  have s2: "upd_root (\<lambda>r. r\<lparr>r_tickCount := Suc (r_tickCount r)\<rparr>) (?H v2) ?n = Some (?H v3)"
    by (rule upd_root_clone) (simp_all add: root_obj_def v3_def)
  have l3: "lanes v3 = lanes sv"
    by (simp add: v3_def v2_def)
  have s3: "lanes_h a ?n d (?H v3) = Some (?H v4, tot)"
    unfolding v4_def tot_def by (rule lanes_clone [OF inp l3])
  have s4: "credit_h a ?n tot (?H v4) = Some (?H (accumulate sv d))"
  proof -
    have "v4\<lparr>resources := (resources v4)
                  \<lparr>payload := payload (resources v4) + tot,
                   credits := credits (resources v4) + tot * calculateCreditRate sv\<rparr>,
              stats := (stats v4)
                  \<lparr>totalPayloadProduced := totalPayloadProduced (stats v4) + tot,
                   totalCreditsEarned := totalCreditsEarned (stats v4)
                     + tot * calculateCreditRate sv\<rparr>\<rparr>
          = accumulate sv d"
      by (rule GameState.equality)
        (simp_all add: v4_def v3_def v2_def tot_def accumulate_def totalPayloadThisTick_def
          Let_def)
    then show ?thesis
      using credit_clone [OF inp, where v = v4 and tot = tot] by simp
  qed
  have s5: "fragment_h a ?n (?H (accumulate sv d))
          = Some (?H (fragmentDrop (calculateFragmentInterval sv) (accumulate sv d)))"
    by (rule fragment_clone [OF inp])
  have tt: "tot = totalPayloadThisTick sv d"
    by (simp add: tot_def totalPayloadThisTick_def)
  show ?thesis
    by (simp add: processTick_h_def s0 s1 s2 s3 [unfolded tt] s4 [unfolded tt] s5
        contract_clone readiness_clone processTick_def)
qed

section \<open>Which objects a state is made of\<close>

lemma deref_less: "deref h a = Some x \<Longrightarrow> a < length h"
  by (simp add: deref_def split: if_splits)

lemma read_less:
  "read_pool h a = Some p \<Longrightarrow> a < length h"
  "read_stats h a = Some st \<Longrightarrow> a < length h"
  "read_levels h a = Some lv \<Longrightarrow> a < length h"
  "read_set h a = Some ps \<Longrightarrow> a < length h"
  "read_modinfo h a = Some mi \<Longrightarrow> a < length h"
  "read_modlist h a = Some ml \<Longrightarrow> a < length h"
  "read_contract h a = Some c \<Longrightarrow> a < length h"
  by (auto simp: read_pool_def read_stats_def read_levels_def read_set_def read_modinfo_def
      read_modlist_def read_contract_def deref_def split: if_splits)

lemma those_Some_member:
  "those (map f ys) = Some xs \<Longrightarrow> y \<in> set ys \<Longrightarrow> \<exists>x. f y = Some x"
  by (induction ys arbitrary: xs) (auto split: option.splits)

lemma reach_lane_old:
  assumes "read_lane h a = Some l" and "x \<in> reach_lane (h @ e) a"
  shows "x < length h"
proof -
  from assms(1) obtain lo where lo: "deref h a = Some (OLane lo)"
    by (auto simp: read_lane_def split: option.splits obj.splits)
  from assms(1) lo obtain ms where "read_modlist h (l_enabledModules lo) = Some ms"
    by (auto simp: read_lane_def bind_eq_Some_conv)
  then have "l_enabledModules lo < length h"
    by (rule read_less)
  then show ?thesis
    using assms(2) deref_less [OF lo] by (auto simp: reach_lane_def deref_ext [OF lo])
qed

lemma reach_modules_old:
  assumes "read_modules h a = Some ms" and "x \<in> reach_modules (h @ e) a"
  shows "x < length h"
proof -
  from assms(1) obtain f where f: "deref h a = Some (OModules f)"
    by (auto simp: read_modules_def split: option.splits obj.splits)
  from assms(1) f obtain d c z t where
    "read_modinfo h (f decrypt) = Some d" "read_modinfo h (f checksum) = Some c"
    "read_modinfo h (f compress) = Some z" "read_modinfo h (f tag) = Some t"
    by (auto simp: read_modules_def bind_eq_Some_conv)
  then have "f decrypt < length h" "f checksum < length h" "f compress < length h"
    "f tag < length h"
    by (auto dest: read_less)
  then show ?thesis
    using assms(2) deref_less [OF f] by (auto simp: reach_modules_def deref_ext [OF f])
qed

lemma reach_meta_old:
  assumes "read_meta h a = Some me" and "x \<in> reach_meta (h @ e) a"
  shows "x < length h"
proof -
  from assms(1) obtain mo where mo: "deref h a = Some (OMeta mo)"
    by (auto simp: read_meta_def split: option.splits obj.splits)
  from assms(1) mo obtain ps where "read_levels h (m_perks mo) = Some ps"
    by (auto simp: read_meta_def bind_eq_Some_conv)
  then have "m_perks mo < length h"
    by (rule read_less)
  then show ?thesis
    using assms(2) deref_less [OF mo] by (auto simp: reach_meta_def deref_ext [OF mo])
qed

lemma read_array_refs:
  assumes "read_array rd h a = Some xs"
  shows "a < length h" and "refs_of (h @ e) a = refs_of h a"
    and "y \<in> set (refs_of h a) \<Longrightarrow> \<exists>x. rd h y = Some x"
proof -
  from assms obtain refs where refs: "deref h a = Some (OArr refs)"
    and th: "those (map (rd h) refs) = Some xs"
    by (auto simp: read_array_def split: option.splits obj.splits)
  show "a < length h"
    by (rule deref_less [OF refs])
  show "refs_of (h @ e) a = refs_of h a"
    by (simp add: refs_of_def refs deref_ext [OF refs])
  show "y \<in> set (refs_of h a) \<Longrightarrow> \<exists>x. rd h y = Some x"
    using those_Some_member [OF th] by (simp add: refs_of_def refs)
qed

lemma reach_state_old:
  assumes rd: "read_state h a = Some v" and x: "x \<in> reach_state (h @ e) a"
  shows "x < length h"
proof -
  from rd obtain r where r: "deref h a = Some (ORoot r)"
    by (auto simp: read_state_def split: option.splits obj.splits)
  from rd r obtain pool ls ms us cs ps me st
    where parts: "read_pool h (r_resources r) = Some pool"
      "read_array read_lane h (r_lanes r) = Some ls"
      "read_modules h (r_modules r) = Some ms"
      "read_levels h (r_upgradesPurchased r) = Some us"
      "read_array read_contract h (r_contracts r) = Some cs"
      "read_set h (r_protocolsUsed r) = Some ps"
      "read_meta h (r_meta r) = Some me"
      "read_stats h (r_stats r) = Some st"
    by (auto simp: read_state_def bind_eq_Some_conv)
  note la = read_array_refs(1) [OF parts(2)] read_array_refs(2) [OF parts(2), where e = e]
    read_array_refs(3) [OF parts(2)]
  note ca = read_array_refs(1) [OF parts(5)] read_array_refs(2) [OF parts(5), where e = e]
    read_array_refs(3) [OF parts(5)]
  from x consider "x = a"
    | "x \<in> {r_resources r, r_upgradesPurchased r, r_protocolsUsed r, r_stats r,
             r_lanes r, r_contracts r}"
    | y where "y \<in> set (refs_of h (r_lanes r))" "x \<in> reach_lane (h @ e) y"
    | "x \<in> set (refs_of h (r_contracts r))"
    | "x \<in> reach_modules (h @ e) (r_modules r)"
    | "x \<in> reach_meta (h @ e) (r_meta r)"
    by (auto simp: reach_state_def deref_ext [OF r] la(2) ca(2))
  then show ?thesis
  proof cases
    case 1
    then show ?thesis using deref_less [OF r] by simp
  next
    case 2
    then show ?thesis
      using parts(1,4,6,8) la(1) ca(1) by (auto dest: read_less)
  next
    case 3
    from la(3) [OF 3(1)] obtain l where "read_lane h y = Some l" by blast
    then show ?thesis using 3(2) by (rule reach_lane_old)
  next
    case 4
    from ca(3) [OF 4] obtain c where "read_contract h x = Some c" by blast
    then show ?thesis by (rule read_less)
  next
    case 5
    with parts(3) show ?thesis by (rule reach_modules_old)
  next
    case 6
    with parts(7) show ?thesis by (rule reach_meta_old)
  qed
qed

lemma reach_state_new:
  assumes x: "x \<in> reach_state (h @ layout_objs (length h) v) (length h)"
  shows "length h \<le> x"
proof -
  let ?n = "length h"
  let ?H = "h @ layout_objs ?n v"
  have lanes_ge: "y \<in> set (lane_refs ?n v) \<Longrightarrow> z \<in> reach_lane ?H y \<Longrightarrow> ?n \<le> z" for y z
  proof -
    assume y: "y \<in> set (lane_refs ?n v)" and z: "z \<in> reach_lane ?H y"
    from y obtain i where i: "i < length (lanes v)" and yi: "y = lane_refs ?n v ! i"
      by (auto simp: in_set_conv_nth length_refs)
    have "?n \<le> y"
      using i yi by (simp add: lane_refs_def)
    then show "?n \<le> z"
      using z i by (auto simp: reach_lane_def yi deref_lane lane_obj_def)
  qed
  have refs: "refs_of ?H (r_lanes (root_obj ?n v)) = lane_refs ?n v"
    "refs_of ?H (r_contracts (root_obj ?n v)) = contract_refs ?n v"
    by (simp_all add: refs_of_def deref_refs)
  have mods: "z \<in> reach_modules ?H (r_modules (root_obj ?n v)) \<Longrightarrow> ?n \<le> z" for z
    by (simp add: reach_modules_def deref_refs) (auto simp: module_refs_def root_obj_def)
  have met: "z \<in> reach_meta ?H (r_meta (root_obj ?n v)) \<Longrightarrow> ?n \<le> z" for z
    by (simp add: reach_meta_def deref_refs) (auto simp: meta_obj_def root_obj_def)
  from x consider "x = ?n"
    | "x \<in> {r_resources (root_obj ?n v), r_upgradesPurchased (root_obj ?n v),
             r_protocolsUsed (root_obj ?n v), r_stats (root_obj ?n v),
             r_lanes (root_obj ?n v), r_contracts (root_obj ?n v)}"
    | y where "y \<in> set (lane_refs ?n v)" "x \<in> reach_lane ?H y"
    | "x \<in> set (contract_refs ?n v)"
    | "x \<in> reach_modules ?H (r_modules (root_obj ?n v))"
    | "x \<in> reach_meta ?H (r_meta (root_obj ?n v))"
    by (auto simp: reach_state_def deref_root refs)
  then show ?thesis
  proof cases
    case 1 then show ?thesis by simp
  next
    case 2 then show ?thesis by (auto simp: root_obj_def)
  next
    case 3 then show ?thesis by (rule lanes_ge)
  next
    case 4 then show ?thesis by (auto simp: contract_refs_def)
  next
    case 5 then show ?thesis by (rule mods)
  next
    case 6 then show ?thesis by (rule met)
  qed
qed

lemma processTick_h_effect:
  assumes inp: "read_state h a = Some s"
  shows "\<exists>h'. processTick_h h a d = Some (h', length h)
           \<and> take (length h) h' = h
           \<and> read_state h' a = Some s
           \<and> read_state h' (length h) = Some (processTick s d)
           \<and> reach_state h' (length h) \<inter> {..< length h} = {}
           \<and> reach_state h' a \<subseteq> {..< length h}"
proof -
  let ?h' = "h @ layout_objs (length h) (processTick s d)"
  have "processTick_h h a d = Some (?h', length h)"
    by (rule processTick_h_result [OF inp])
  moreover have "take (length h) ?h' = h"
    by simp
  moreover have "read_state ?h' a = Some s"
    by (rule read_state_ext [OF inp])
  moreover have "read_state ?h' (length h) = Some (processTick s d)"
    by (rule read_clone)
  moreover have "reach_state ?h' (length h) \<inter> {..< length h} = {}"
    using reach_state_new [of _ h "processTick s d"] by fastforce
  moreover have "reach_state ?h' a \<subseteq> {..< length h}"
    using reach_state_old [OF inp] by auto
  ultimately show ?thesis
    by blast
qed

section \<open>Rounding to binary64\<close>

lemma pow2_powr: "pow2 e = 2 powr (of_int e)"
  by (simp add: pow2_def powr_real_of_int inverse_eq_divide)

lemma pow2_pos: "0 < pow2 e"
  by (simp add: pow2_powr)

lemma pow2_add: "pow2 (a + b) = pow2 a * pow2 b"
  by (simp add: pow2_powr powr_add)

lemma pow2_mono: "a \<le> b \<Longrightarrow> pow2 a \<le> pow2 b"
  by (simp add: pow2_powr)

lemma pow2_nat: "0 \<le> e \<Longrightarrow> pow2 e = of_int (2 ^ nat e)"
  by (simp add: pow2_def)

lemma pow2_0: "pow2 0 = 1"
  by (simp add: pow2_def)

lemma pow2_Suc: "pow2 (e + 1) = 2 * pow2 e"
  by (simp add: pow2_add) (simp add: pow2_def)

lemma binade_ge: "- 1022 \<le> binade x"
  by (simp add: binade_def)

lemma bitlen_ge1: "0 < n \<Longrightarrow> 1 \<le> bitlen n"
  using bitlen_eq_zero_iff [of n] bitlen_nonneg [of n] by (cases "bitlen n = 0") auto

lemma raw_binade:
  assumes "x \<noteq> 0"
  defines "k \<equiv> (if 1 \<le> \<bar>x\<bar> then bitlen \<lfloor>\<bar>x\<bar>\<rfloor> - 1 else - bitlen (\<lceil>1 / \<bar>x\<bar>\<rceil> - 1))"
  shows "pow2 k \<le> \<bar>x\<bar>" and "\<bar>x\<bar> < pow2 (k + 1)"
proof -
  have both: "pow2 k \<le> \<bar>x\<bar> \<and> \<bar>x\<bar> < pow2 (k + 1)"
  proof (cases "1 \<le> \<bar>x\<bar>")
    case True
    define n where "n = \<lfloor>\<bar>x\<bar>\<rfloor>"
    have n1: "1 \<le> n" using True by (simp add: n_def le_floor_iff)
    then have n0: "0 < n" by simp
    have k: "k = bitlen n - 1" using True by (simp add: k_def n_def)
    from n0 have bl: "1 \<le> bitlen n"
      by (rule bitlen_ge1)
    from bitlen_bounds [OF n0] have lo: "2 ^ nat (bitlen n - 1) \<le> n" and hi: "n < 2 ^ nat (bitlen n)"
      by simp_all
    have "pow2 k = of_int (2 ^ nat (bitlen n - 1))"
      using bl by (simp add: k pow2_nat)
    also have "(of_int (2 ^ nat (bitlen n - 1)) :: real) \<le> of_int n"
      using lo by (simp only: of_int_le_iff)
    also have "of_int n \<le> \<bar>x\<bar>" unfolding n_def by linarith
    finally have A: "pow2 k \<le> \<bar>x\<bar>" .
    have n1le: "n + 1 \<le> 2 ^ nat (bitlen n)" using hi by simp
    have "\<bar>x\<bar> < of_int (n + 1)" unfolding n_def by linarith
    also have "(of_int (n + 1) :: real) \<le> of_int (2 ^ nat (bitlen n))"
      using n1le by (simp only: of_int_le_iff)
    also have "of_int (2 ^ nat (bitlen n)) = pow2 (k + 1)"
      using bl by (simp add: k pow2_nat)
    finally have B: "\<bar>x\<bar> < pow2 (k + 1)" .
    from A B show ?thesis by simp
  next
    case False
    define z where "z = 1 / \<bar>x\<bar>"
    have xpos: "0 < \<bar>x\<bar>" using assms(1) by simp
    have z1: "1 < z" using False xpos by (simp add: z_def)
    define n where "n = \<lceil>z\<rceil>"
    have n2: "2 \<le> n" using z1 unfolding n_def by linarith
    define j where "j = bitlen (n - 1)"
    have k: "k = - j" using False by (simp add: k_def j_def n_def z_def)
    have n0: "0 < n - 1" using n2 by simp
    have j1: "1 \<le> j"
      unfolding j_def using n0 by (rule bitlen_ge1)
    from bitlen_bounds [OF n0] have lo: "2 ^ nat (j - 1) \<le> n - 1" and hi: "n - 1 < 2 ^ nat j"
      by (simp_all add: j_def)
    have nle: "n \<le> 2 ^ nat j" using hi by simp
    have "z \<le> of_int n" by (simp add: n_def)
    also have "(of_int n :: real) \<le> of_int (2 ^ nat j)"
      using nle by (simp only: of_int_le_iff)
    also have "of_int (2 ^ nat j) = pow2 j"
      using j1 by (simp only: pow2_nat)
    finally have zle: "z \<le> pow2 j" .
    have "pow2 (j - 1) = of_int (2 ^ nat (j - 1))"
      using j1 by (simp only: pow2_nat)
    also have "(of_int (2 ^ nat (j - 1)) :: real) \<le> of_int (n - 1)"
      using lo by (simp only: of_int_le_iff)
    also have "of_int (n - 1) < z" unfolding n_def by linarith
    finally have zgt: "pow2 (j - 1) < z" .
    have inv: "pow2 (- e) = 1 / pow2 e" for e
      by (simp add: pow2_powr powr_minus inverse_eq_divide)
    have A: "pow2 k \<le> \<bar>x\<bar>"
    proof -
      have "1 / pow2 j \<le> 1 / z"
        using zle z1 by (intro divide_left_mono) (simp_all add: pow2_pos)
      then show ?thesis using xpos by (simp add: k inv z_def)
    qed
    have B: "\<bar>x\<bar> < pow2 (k + 1)"
    proof -
      have "1 / z < 1 / pow2 (j - 1)"
        using zgt z1 by (intro divide_strict_left_mono) (simp_all add: pow2_pos)
      moreover have "pow2 (k + 1) = 1 / pow2 (j - 1)"
        using inv [of "j - 1"] by (simp add: k)
      ultimately show ?thesis using xpos by (simp add: z_def)
    qed
    from A B show ?thesis by simp
  qed
  from both show "pow2 k \<le> \<bar>x\<bar>" and "\<bar>x\<bar> < pow2 (k + 1)" by simp_all
qed

lemma binade_upper: "x \<noteq> 0 \<Longrightarrow> \<bar>x\<bar> < pow2 (binade x + 1)"
proof -
  assume x: "x \<noteq> 0"
  define k where "k = (if 1 \<le> \<bar>x\<bar> then bitlen \<lfloor>\<bar>x\<bar>\<rfloor> - 1 else - bitlen (\<lceil>1 / \<bar>x\<bar>\<rceil> - 1))"
  have b: "binade x = max (- 1022) k" by (simp add: binade_def k_def)
  have "\<bar>x\<bar> < pow2 (k + 1)" unfolding k_def by (rule raw_binade(2) [OF x])
  also have "pow2 (k + 1) \<le> pow2 (binade x + 1)" by (rule pow2_mono) (simp add: b)
  finally show ?thesis .
qed

lemma binade_lower: "x \<noteq> 0 \<Longrightarrow> - 1022 < binade x \<Longrightarrow> pow2 (binade x) \<le> \<bar>x\<bar>"
proof -
  assume x: "x \<noteq> 0" and n: "- 1022 < binade x"
  define k where "k = (if 1 \<le> \<bar>x\<bar> then bitlen \<lfloor>\<bar>x\<bar>\<rfloor> - 1 else - bitlen (\<lceil>1 / \<bar>x\<bar>\<rceil> - 1))"
  have b: "binade x = max (- 1022) k" by (simp add: binade_def k_def)
  with n have "binade x = k" by simp
  moreover have "pow2 k \<le> \<bar>x\<bar>" unfolding k_def by (rule raw_binade(1) [OF x])
  ultimately show ?thesis by simp
qed

lemma binade_eqI:
  assumes "pow2 e \<le> \<bar>x\<bar>" "\<bar>x\<bar> < pow2 (e + 1)" "- 1022 \<le> e"
  shows "binade x = e"
proof -
  have x: "x \<noteq> 0" using assms(1) pow2_pos [of e] by auto
  show ?thesis
  proof (rule ccontr)
    assume ne: "binade x \<noteq> e"
    show False
    proof (cases "binade x < e")
      case True
      then have "pow2 (binade x + 1) \<le> pow2 e" by (intro pow2_mono) simp
      with binade_upper [OF x] assms(1) show False by simp
    next
      case False
      with ne have gt: "e < binade x" by simp
      with assms(3) have "- 1022 < binade x" by simp
      from binade_lower [OF x this] assms(2) have "pow2 (binade x) < pow2 (e + 1)" by simp
      moreover have "pow2 (e + 1) \<le> pow2 (binade x)" using gt by (intro pow2_mono) simp
      ultimately show False by simp
    qed
  qed
qed

lemma binade_le:
  assumes "\<bar>x\<bar> < pow2 (e + 1)" "- 1022 \<le> e" "x \<noteq> 0"
  shows "binade x \<le> e"
proof (rule ccontr)
  assume "\<not> binade x \<le> e"
  then have gt: "e < binade x" by simp
  with assms(2) have "- 1022 < binade x" by simp
  from binade_lower [OF assms(3) this] assms(1) have "pow2 (binade x) < pow2 (e + 1)" by simp
  moreover have "pow2 (e + 1) \<le> pow2 (binade x)" using gt by (intro pow2_mono) simp
  ultimately show False by simp
qed

lemma round_half_even_int: "round_half_even (of_int n) = n"
  by (simp add: round_half_even_def)

lemma round_half_even_range:
  "\<lfloor>y\<rfloor> \<le> round_half_even y" "round_half_even y \<le> \<lfloor>y\<rfloor> + 1"
  by (simp_all add: round_half_even_def Let_def)

lemma round_half_even_mono:
  assumes "y \<le> y'"
  shows "round_half_even y \<le> round_half_even y'"
proof (cases "\<lfloor>y\<rfloor> = \<lfloor>y'\<rfloor>")
  case True
  then show ?thesis
    using assms by (auto simp: round_half_even_def Let_def)
next
  case False
  with assms have "\<lfloor>y\<rfloor> < \<lfloor>y'\<rfloor>"
    using floor_mono [OF assms] by simp
  then have "\<lfloor>y\<rfloor> + 1 \<le> \<lfloor>y'\<rfloor>" by simp
  with round_half_even_range(2) [of y] round_half_even_range(1) [of y'] show ?thesis
    by linarith
qed

lemma round_half_even_error: "\<bar>of_int (round_half_even y) - y\<bar> \<le> 1 / 2"
proof -
  define n where "n = \<lfloor>y\<rfloor>"
  define f where "f = y - of_int n"
  have f: "0 \<le> f" "f < 1" unfolding f_def n_def by linarith+
  have y: "y = of_int n + f" by (simp add: f_def)
  have r: "round_half_even y = (if f < 1 / 2 then n else if 1 / 2 < f then n + 1
                                else if even n then n else n + 1)"
    by (simp add: round_half_even_def Let_def n_def f_def)
  from r have "of_int (round_half_even y) - y
      = (if f < 1 / 2 then - f else if 1 / 2 < f then 1 - f else if even n then - f else 1 - f)"
    by (simp add: f_def)
  then show ?thesis
    using f by (auto simp: abs_if)
qed

lemma fl_0: "fl 0 = 0"
  by (simp add: fl_def round_half_even_def)

lemma fl_nonneg: "0 \<le> x \<Longrightarrow> 0 \<le> fl x"
proof -
  assume "0 \<le> x"
  then have "0 \<le> x / pow2 (binade x - 52)"
    using pow2_pos [of "binade x - 52"] by simp
  from round_half_even_mono [OF this] have "0 \<le> round_half_even (x / pow2 (binade x - 52))"
    using round_half_even_int [of 0] by simp
  then show ?thesis
    using pow2_pos [of "binade x - 52"] by (simp add: fl_def Let_def)
qed

lemma fl_nonpos: "x \<le> 0 \<Longrightarrow> fl x \<le> 0"
proof -
  assume "x \<le> 0"
  then have "x / pow2 (binade x - 52) \<le> 0"
    using pow2_pos [of "binade x - 52"] by (simp add: divide_le_0_iff)
  from round_half_even_mono [OF this] have "round_half_even (x / pow2 (binade x - 52)) \<le> 0"
    using round_half_even_int [of 0] by simp
  then show ?thesis
    using pow2_pos [of "binade x - 52"] by (simp add: fl_def Let_def mult_le_0_iff)
qed

lemma pow2_52: "pow2 (e - 52) * 2 ^ 52 = pow2 e" "pow2 (e - 52) * 2 ^ 53 = pow2 (e + 1)"
proof -
  have c: "pow2 52 = 2 ^ 52" "pow2 53 = 2 ^ 53"
    by (simp_all add: pow2_def)
  have "pow2 e = pow2 ((e - 52) + 52)" by simp
  also have "\<dots> = pow2 (e - 52) * pow2 52" by (rule pow2_add)
  finally show "pow2 (e - 52) * 2 ^ 52 = pow2 e"
    by (simp only: c)
  have "e + 1 = (e - 52) + 53" by simp
  then have "pow2 (e + 1) = pow2 ((e - 52) + 53)" by (rule arg_cong)
  also have "\<dots> = pow2 (e - 52) * pow2 53" by (rule pow2_add)
  finally show "pow2 (e - 52) * 2 ^ 53 = pow2 (e + 1)"
    by (simp only: c)
qed

text \<open>The scaled significand of a value lies within the 53-bit range.\<close>

lemma significand_bounds:
  fixes x :: real
  defines "u \<equiv> pow2 (binade x - 52)"
  shows "round_half_even (x / u) \<le> 2 ^ 53" and "- (2 ^ 53) \<le> round_half_even (x / u)"
    and "x \<noteq> 0 \<Longrightarrow> - 1022 < binade x \<Longrightarrow> 0 < x \<Longrightarrow> 2 ^ 52 \<le> round_half_even (x / u)"
    and "x \<noteq> 0 \<Longrightarrow> - 1022 < binade x \<Longrightarrow> x < 0 \<Longrightarrow> round_half_even (x / u) \<le> - (2 ^ 52)"
proof -
  have upos: "0 < u" by (simp add: u_def pow2_pos)
  have absx: "\<bar>x\<bar> \<le> pow2 (binade x + 1)"
    using binade_upper [of x] pow2_pos [of "binade x + 1"] by (cases "x = 0") auto
  have top: "pow2 (binade x + 1) / u = 2 ^ 53"
    using pow2_52(2) [of "binade x"] upos by (simp add: u_def field_simps)
  have "x / u \<le> pow2 (binade x + 1) / u"
    using absx upos by (intro divide_right_mono) auto
  then have "x / u \<le> of_int (2 ^ 53)" by (simp add: top)
  from round_half_even_mono [OF this] show "round_half_even (x / u) \<le> 2 ^ 53"
    by (simp only: round_half_even_int)
  have "- pow2 (binade x + 1) / u \<le> x / u"
    using absx upos by (intro divide_right_mono) auto
  then have "of_int (- (2 ^ 53)) \<le> x / u" using top by simp
  from round_half_even_mono [OF this] show "- (2 ^ 53) \<le> round_half_even (x / u)"
    by (simp only: round_half_even_int)
  have bot: "pow2 (binade x) / u = 2 ^ 52"
    using pow2_52(1) [of "binade x"] upos by (simp add: u_def field_simps)
  show "2 ^ 52 \<le> round_half_even (x / u)" if "x \<noteq> 0" "- 1022 < binade x" "0 < x"
  proof -
    from binade_lower [OF that(1,2)] that(3) have "pow2 (binade x) \<le> x" by simp
    then have "pow2 (binade x) / u \<le> x / u"
      using upos by (intro divide_right_mono) auto
    then have "of_int (2 ^ 52) \<le> x / u" by (simp add: bot)
    from round_half_even_mono [OF this] show ?thesis
      by (simp only: round_half_even_int)
  qed
  show "round_half_even (x / u) \<le> - (2 ^ 52)" if "x \<noteq> 0" "- 1022 < binade x" "x < 0"
  proof -
    from binade_lower [OF that(1,2)] that(3) have "x \<le> - pow2 (binade x)" by simp
    then have "x / u \<le> - pow2 (binade x) / u"
      using upos by (intro divide_right_mono) auto
    then have "x / u \<le> of_int (- (2 ^ 52))" using bot by simp
    from round_half_even_mono [OF this] show ?thesis
      by (simp only: round_half_even_int)
  qed
qed

lemma fl_bounds_pos:
  assumes "0 < x"
  shows "fl x \<le> pow2 (binade x + 1)" and "- 1022 < binade x \<Longrightarrow> pow2 (binade x) \<le> fl x"
proof -
  let ?u = "pow2 (binade x - 52)"
  have upos: "0 < ?u" by (rule pow2_pos)
  have "of_int (round_half_even (x / ?u)) \<le> (of_int (2 ^ 53) :: real)"
    using significand_bounds(1) [of x] by (simp only: of_int_le_iff)
  then have "of_int (round_half_even (x / ?u)) * ?u \<le> 2 ^ 53 * ?u"
    using upos by (intro mult_right_mono) auto
  then show "fl x \<le> pow2 (binade x + 1)"
    using pow2_52(2) [of "binade x"] by (simp add: fl_def Let_def mult.commute)
  show "pow2 (binade x) \<le> fl x" if "- 1022 < binade x"
  proof -
    have "(of_int (2 ^ 52) :: real) \<le> of_int (round_half_even (x / ?u))"
      using significand_bounds(3) [of x] assms that by simp
    then have "2 ^ 52 * ?u \<le> of_int (round_half_even (x / ?u)) * ?u"
      using upos by (intro mult_right_mono) auto
    then show ?thesis
      using pow2_52(1) [of "binade x"] by (simp add: fl_def Let_def mult.commute)
  qed
qed

lemma fl_bounds_neg:
  assumes "x < 0"
  shows "- pow2 (binade x + 1) \<le> fl x" and "- 1022 < binade x \<Longrightarrow> fl x \<le> - pow2 (binade x)"
proof -
  let ?u = "pow2 (binade x - 52)"
  have upos: "0 < ?u" by (rule pow2_pos)
  have "(of_int (- (2 ^ 53)) :: real) \<le> of_int (round_half_even (x / ?u))"
    using significand_bounds(2) [of x] by (simp only: of_int_le_iff)
  then have "- (2 ^ 53) * ?u \<le> of_int (round_half_even (x / ?u)) * ?u"
    using upos by (intro mult_right_mono) auto
  then show "- pow2 (binade x + 1) \<le> fl x"
    using pow2_52(2) [of "binade x"] by (simp add: fl_def Let_def mult.commute)
  show "fl x \<le> - pow2 (binade x)" if "- 1022 < binade x"
  proof -
    have "of_int (round_half_even (x / ?u)) \<le> (of_int (- (2 ^ 52)) :: real)"
      using significand_bounds(4) [of x] assms that by simp
    then have "of_int (round_half_even (x / ?u)) * ?u \<le> - (2 ^ 52) * ?u"
      using upos by (intro mult_right_mono) auto
    then show ?thesis
      using pow2_52(1) [of "binade x"] by (simp add: fl_def Let_def mult.commute)
  qed
qed

lemma binade_mono_pos:
  assumes "0 < x" "x \<le> y"
  shows "binade x \<le> binade y"
proof (rule ccontr)
  assume "\<not> binade x \<le> binade y"
  then have lt: "binade y < binade x" by simp
  then have n: "- 1022 < binade x" using binade_ge [of y] by linarith
  have "pow2 (binade x) \<le> \<bar>x\<bar>" using binade_lower [OF _ n] assms(1) by simp
  moreover have "\<bar>y\<bar> < pow2 (binade y + 1)" using binade_upper [of y] assms by simp
  moreover have "pow2 (binade y + 1) \<le> pow2 (binade x)" using lt by (intro pow2_mono) simp
  ultimately show False using assms by simp
qed

lemma binade_minus: "binade (- x) = binade x"
  by (simp add: binade_def)

lemma fl_mono_same:
  assumes "x \<le> y" "binade x = binade y"
  shows "fl x \<le> fl y"
proof -
  let ?u = "pow2 (binade y - 52)"
  have upos: "0 < ?u" by (rule pow2_pos)
  have "x / ?u \<le> y / ?u" using assms(1) upos by (intro divide_right_mono) auto
  from round_half_even_mono [OF this]
  have "(of_int (round_half_even (x / ?u)) :: real) \<le> of_int (round_half_even (y / ?u))"
    by (simp only: of_int_le_iff)
  then have "of_int (round_half_even (x / ?u)) * ?u \<le> of_int (round_half_even (y / ?u)) * ?u"
    using upos by (intro mult_right_mono) auto
  then show ?thesis by (simp add: fl_def Let_def assms(2))
qed

lemma fl_mono:
  assumes "x \<le> y"
  shows "fl x \<le> fl y"
proof -
  consider "x \<le> 0" "0 \<le> y" | "0 < x" | "y < 0" using assms by linarith
  then show ?thesis
  proof cases
    case 1
    then show ?thesis using fl_nonpos [of x] fl_nonneg [of y] by simp
  next
    case 2
    then have ypos: "0 < y" using assms by simp
    show ?thesis
    proof (cases "binade x = binade y")
      case True
      with assms show ?thesis by (rule fl_mono_same)
    next
      case False
      with binade_mono_pos [OF 2 assms] have lt: "binade x < binade y" by simp
      then have n: "- 1022 < binade y" using binade_ge [of x] by linarith
      have "fl x \<le> pow2 (binade x + 1)" by (rule fl_bounds_pos(1) [OF 2])
      also have "pow2 (binade x + 1) \<le> pow2 (binade y)" using lt by (intro pow2_mono) simp
      also have "pow2 (binade y) \<le> fl y" by (rule fl_bounds_pos(2) [OF ypos n])
      finally show ?thesis .
    qed
  next
    case 3
    then have xneg: "x < 0" using assms by simp
    have pos: "0 < - y" "- y \<le> - x" using 3 assms by simp_all
    show ?thesis
    proof (cases "binade x = binade y")
      case True
      with assms show ?thesis by (rule fl_mono_same)
    next
      case False
      with binade_mono_pos [OF pos] have lt: "binade y < binade x"
        by (simp add: binade_minus)
      then have n: "- 1022 < binade x" using binade_ge [of y] by linarith
      have "fl x \<le> - pow2 (binade x)" by (rule fl_bounds_neg(2) [OF xneg n])
      also have "- pow2 (binade x) \<le> - pow2 (binade y + 1)"
        using lt pow2_mono [of "binade y + 1" "binade x"] by simp
      also have "- pow2 (binade y + 1) \<le> fl y" by (rule fl_bounds_neg(1) [OF 3])
      finally show ?thesis .
    qed
  qed
qed

text \<open>The numbers of the format are fixed points of the rounding.\<close>

lemma fl_grid:
  assumes n: "\<bar>n\<bar> \<le> 2 ^ 53" and e: "- 1022 \<le> e"
  shows "fl (of_int n * pow2 (e - 52)) = of_int n * pow2 (e - 52)"
proof (cases "n = 0")
  case True
  then show ?thesis by (simp add: fl_0)
next
  case False
  define x where "x = of_int n * pow2 (e - 52)"
  define b where "b = binade x"
  have xne: "x \<noteq> 0" using False pow2_pos [of "e - 52"] by (simp add: x_def)
  have absx: "\<bar>x\<bar> = of_int \<bar>n\<bar> * pow2 (e - 52)"
    using pow2_pos [of "e - 52"] by (simp add: x_def abs_mult)
  have "\<exists>k. x / pow2 (b - 52) = of_int k"
  proof (cases "b \<le> e")
    case True
    have "pow2 (e - 52) = pow2 ((b - 52) + (e - b))" by simp
    also have "\<dots> = pow2 (b - 52) * pow2 (e - b)" by (rule pow2_add)
    also have "pow2 (e - b) = of_int (2 ^ nat (e - b))" using True by (simp add: pow2_nat)
    finally have "x / pow2 (b - 52) = of_int (n * 2 ^ nat (e - b))"
      using pow2_pos [of "b - 52"] by (simp add: x_def)
    then show ?thesis by blast
  next
    case False
    then have gt: "e < b" by simp
    then have "- 1022 < binade x" using e by (simp add: b_def)
    from binade_lower [OF xne this] have lo: "pow2 b \<le> \<bar>x\<bar>" by (simp add: b_def)
    have "(of_int \<bar>n\<bar> :: real) \<le> of_int (2 ^ 53)" using n by (simp only: of_int_le_iff)
    then have "\<bar>x\<bar> \<le> 2 ^ 53 * pow2 (e - 52)"
      unfolding absx using pow2_pos [of "e - 52"] by (intro mult_right_mono) auto
    then have hi: "\<bar>x\<bar> \<le> pow2 (e + 1)" using pow2_52(2) [of e] by (simp add: mult.commute)
    have "pow2 (e + 1) \<le> pow2 b" using gt by (intro pow2_mono) simp
    with lo hi have eq: "\<bar>x\<bar> = pow2 (e + 1)" and pb: "pow2 b = pow2 (e + 1)" by simp_all
    have "b = e + 1"
    proof (rule ccontr)
      assume "b \<noteq> e + 1"
      with gt have "e + 2 \<le> b" by simp
      then have "pow2 (e + 2) \<le> pow2 b" by (rule pow2_mono)
      moreover have "pow2 (e + 2) = 2 * pow2 (e + 1)"
        using pow2_Suc [of "e + 1"] by (simp add: add.commute)
      ultimately show False using pb pow2_pos [of "e + 1"] by simp
    qed
    then have u: "pow2 (b - 52) * 2 ^ 52 = pow2 (e + 1)" using pow2_52(1) [of b] by simp
    have "\<bar>x\<bar> / pow2 (b - 52) = of_int (2 ^ 52)"
      using u pow2_pos [of "b - 52"] by (simp add: eq field_simps)
    then have "x / pow2 (b - 52) = of_int (2 ^ 52) \<or> x / pow2 (b - 52) = of_int (- (2 ^ 52))"
      using pow2_pos [of "b - 52"] by (cases "0 \<le> x") (simp_all add: abs_if field_simps)
    then show ?thesis by blast
  qed
  then obtain k where k: "x / pow2 (b - 52) = of_int k" ..
  have "fl x = of_int k * pow2 (b - 52)"
    by (simp add: fl_def Let_def b_def [symmetric] k round_half_even_int)
  also have "\<dots> = x" using k pow2_pos [of "b - 52"] by (simp add: field_simps)
  finally show ?thesis by (simp add: x_def)
qed

lemma fl_fl: "fl (fl x) = fl x"
proof -
  have "\<bar>round_half_even (x / pow2 (binade x - 52))\<bar> \<le> 2 ^ 53"
    using significand_bounds(1,2) [of x] by simp
  from fl_grid [OF this binade_ge [of x]] show ?thesis
    by (simp add: fl_def Let_def)
qed

lemma fl_1: "fl 1 = 1"
  using fl_grid [of "2 ^ 52" 0] by (simp add: pow2_def)

lemma fl_error: "\<bar>fl x - x\<bar> \<le> pow2 (binade x - 53)"
proof -
  let ?u = "pow2 (binade x - 52)"
  have upos: "0 < ?u" by (rule pow2_pos)
  have "fl x - x = (of_int (round_half_even (x / ?u)) - x / ?u) * ?u"
    using upos by (simp add: fl_def Let_def field_simps)
  then have "\<bar>fl x - x\<bar> = \<bar>of_int (round_half_even (x / ?u)) - x / ?u\<bar> * ?u"
    using upos by (simp add: abs_mult)
  also have "\<dots> \<le> (1 / 2) * ?u"
    using round_half_even_error [of "x / ?u"] upos by (intro mult_right_mono) auto
  also have "(1 / 2) * ?u = pow2 (binade x - 53)"
    using pow2_Suc [of "binade x - 53"] by simp
  finally show ?thesis .
qed

lemma fl_error_below:
  assumes "\<bar>x\<bar> < pow2 k" "- 1021 \<le> k"
  shows "\<bar>fl x - x\<bar> \<le> pow2 (k - 54)"
proof (cases "x = 0")
  case True
  then show ?thesis using pow2_pos [of "k - 54"] by (simp add: fl_0)
next
  case False
  have "binade x \<le> k - 1"
    using binade_le [of x "k - 1"] assms False by simp
  then have "pow2 (binade x - 53) \<le> pow2 (k - 54)" by (intro pow2_mono) simp
  with fl_error [of x] show ?thesis by simp
qed

text \<open>Rounding a value whose binade is known.\<close>

lemma fl_eval:
  assumes "pow2 e \<le> \<bar>x\<bar>" "\<bar>x\<bar> < pow2 (e + 1)" "- 1022 \<le> e"
  shows "fl x = of_int (round_half_even (x / pow2 (e - 52))) * pow2 (e - 52)"
  by (simp add: fl_def Let_def binade_eqI [OF assms])

section \<open>Latency bounds\<close>

subsection \<open>In exact arithmetic\<close>

lemma rawPenalty_bounds:
  fixes m e :: real
  assumes "0 \<le> e"
  shows "1 / 10 \<le> max (1 / 10) (1 - 0.06 * max 0 (m - 3) - 0.0008 * e)"
    and "max (1 / 10) (1 - 0.06 * max 0 (m - 3) - 0.0008 * e) \<le> 1"
  using assms by (auto simp: max_def)

lemma recover_mono:
  fixes a b r :: real
  assumes "a \<le> b" "r \<le> 1"
  shows "min 1 (a + r * (1 - a)) \<le> min 1 (b + r * (1 - b))"
proof -
  have "b + r * (1 - b) - (a + r * (1 - a)) = (b - a) * (1 - r)"
    by (simp add: algebra_simps)
  moreover have "0 \<le> (b - a) * (1 - r)"
    using assms by (intro mult_nonneg_nonneg) auto
  ultimately show ?thesis by (simp add: min_def)
qed

text \<open>
  With the arithmetic read exactly, the penalty lies in [0.1, 1] and does not increase when
  the module count or the queue grows.
\<close>

lemma calculateLatency_exact_bounds_mono:
  assumes "0 \<le> m" "0 \<le> q" "0 \<le> t" "0 \<le> r" "r \<le> 1" "m \<le> m'" "q \<le> q'"
  shows "0.1 \<le> penalty (calculateLatency m q t r)
       \<and> penalty (calculateLatency m q t r) \<le> 1.0
       \<and> penalty (calculateLatency m' q t r) \<le> penalty (calculateLatency m q t r)
       \<and> penalty (calculateLatency m q' t r) \<le> penalty (calculateLatency m q t r)"
proof -
  define raw where "raw mm qq = max (1 / 10) (1 - 0.06 * max 0 (mm - 3) - 0.0008 * max 0 (qq - t))"
    for mm qq :: real
  have pen: "penalty (calculateLatency mm qq t r) = min 1 (raw mm qq + r * (1 - raw mm qq))"
    for mm qq
    by (simp add: calculateLatency_def raw_def Let_def)
  have lo: "1 / 10 \<le> raw mm qq" and hi: "raw mm qq \<le> 1" for mm qq
    unfolding raw_def by (rule rawPenalty_bounds; simp)+
  have "0 \<le> r * (1 - raw m q)"
    using \<open>0 \<le> r\<close> hi [of m q] by (intro mult_nonneg_nonneg) auto
  then have b1: "1 / 10 \<le> min 1 (raw m q + r * (1 - raw m q))"
    using lo [of m q] by (simp add: min_def)
  have b2: "min 1 (raw m q + r * (1 - raw m q)) \<le> 1"
    by simp
  have "max 0 (m - 3) \<le> max 0 (m' - 3)"
    using \<open>m \<le> m'\<close> by simp
  then have "1 - 0.06 * max 0 (m' - 3) - 0.0008 * max 0 (q - t)
           \<le> 1 - 0.06 * max 0 (m - 3) - 0.0008 * max 0 (q - t)"
    by simp
  then have "raw m' q \<le> raw m q"
    unfolding raw_def by (rule max.mono [OF order_refl])
  then have b3: "min 1 (raw m' q + r * (1 - raw m' q)) \<le> min 1 (raw m q + r * (1 - raw m q))"
    using \<open>r \<le> 1\<close> by (rule recover_mono)
  have "max 0 (q - t) \<le> max 0 (q' - t)"
    using \<open>q \<le> q'\<close> by simp
  then have "1 - 0.06 * max 0 (m - 3) - 0.0008 * max 0 (q' - t)
           \<le> 1 - 0.06 * max 0 (m - 3) - 0.0008 * max 0 (q - t)"
    by simp
  then have "raw m q' \<le> raw m q"
    unfolding raw_def by (rule max.mono [OF order_refl])
  then have b4: "min 1 (raw m q' + r * (1 - raw m q')) \<le> min 1 (raw m q + r * (1 - raw m q))"
    using \<open>r \<le> 1\<close> by (rule recover_mono)
  from b1 b2 b3 b4 show ?thesis
    by (simp add: pen)
qed

subsection \<open>In binary64 arithmetic\<close>

text \<open>Evaluating the function step by step, and the roundings of two concrete calls.\<close>

lemma penalty_f64_steps:
  assumes "max 0 (fl (q - t)) = eq"
    and "fl (fl 0.06 * max 0 (fl (m - 3))) = dp"
    and "fl (fl 0.0008 * eq) = qp"
    and "max (fl 0.1) (fl (fl (1 - dp) - qp)) = raw"
    and "fl (r * fl (1 - raw)) = b"
    and "fl (raw + b) = c"
  shows "calculateLatency_penalty_f64 m q t r = min 1 c"
  unfolding calculateLatency_penalty_f64_def Let_def assms ..

lemmas fl_at = fl_eval [where e = "- 11"] fl_eval [where e = "- 5"] fl_eval [where e = "- 4"]
  fl_eval [where e = "- 2"] fl_eval [where e = "- 1"] fl_eval [where e = 2]
  fl_eval [where e = 9]

lemma fl_literals:
  "fl 0.06 = 1080863910568919 / 2 ^ 54"
  "fl 0.0008 = 7378697629483821 / 2 ^ 63"
  "fl 0.1 = 3602879701896397 / 2 ^ 55"
  "fl 0.6 = 5404319552844595 / 2 ^ 53"
  by (simp_all add: fl_at pow2_def round_half_even_def Let_def)

lemma penalty_f64_10_600:
  "calculateLatency_penalty_f64 10 600 0 (fl 0.6) = 2882303761517117 / 2 ^ 52"
proof -
  have s1: "max 0 (fl (600 - 0)) = 600"
    by (simp add: fl_at pow2_def round_half_even_def Let_def)
  have s2: "fl (fl 0.06 * max 0 (fl (10 - 3))) = 7566047373982433 / 2 ^ 54"
    by (simp add: fl_literals) (simp add: fl_at pow2_def round_half_even_def Let_def)
  have s3: "fl (fl 0.0008 * 600) = 8646911284551353 / 2 ^ 54"
    by (simp add: fl_literals) (simp add: fl_at pow2_def round_half_even_def Let_def)
  have s4a: "fl (1 - 7566047373982433 / 2 ^ 54) = 326510972984361 / 2 ^ 49"
    by (simp add: fl_at pow2_def round_half_even_def Let_def)
  have s4b: "fl (326510972984361 / 2 ^ 49 - 8646911284551353 / 2 ^ 54) = 1801439850948199 / 2 ^ 54"
    by (simp add: fl_at pow2_def round_half_even_def Let_def)
  have s4: "max (fl 0.1) (fl (fl (1 - 7566047373982433 / 2 ^ 54) - 8646911284551353 / 2 ^ 54))
         = 1801439850948199 / 2 ^ 54"
    unfolding s4a s4b by (simp add: fl_literals)
  have s5a: "fl (1 - 1801439850948199 / 2 ^ 54) = 2026619832316723 / 2 ^ 51"
    by (simp add: fl_at pow2_def round_half_even_def Let_def)
  have s5b: "fl (5404319552844595 / 2 ^ 53 * (2026619832316723 / 2 ^ 51)) = 4863887597560135 / 2 ^ 53"
    by (simp add: fl_at pow2_def round_half_even_def Let_def)
  have s5: "fl (fl 0.6 * fl (1 - 1801439850948199 / 2 ^ 54)) = 4863887597560135 / 2 ^ 53"
    unfolding s5a fl_literals s5b ..
  have s6: "fl (1801439850948199 / 2 ^ 54 + 4863887597560135 / 2 ^ 53) = 2882303761517117 / 2 ^ 52"
    by (simp add: fl_at pow2_def round_half_even_def Let_def)
  show ?thesis
    unfolding penalty_f64_steps [OF s1 s2 s3 s4 s5 s6] by simp
qed


lemma penalty_f64_10_601:
  "calculateLatency_penalty_f64 10 601 0 (fl 0.6) = 5764607523034235 / 2 ^ 53"
proof -
  have s1: "max 0 (fl (601 - 0)) = 601"
    by (simp add: fl_at pow2_def round_half_even_def Let_def)
  have s2: "fl (fl 0.06 * max 0 (fl (10 - 3))) = 7566047373982433 / 2 ^ 54"
    by (simp add: fl_literals) (simp add: fl_at pow2_def round_half_even_def Let_def)
  have s3: "fl (fl 0.0008 * 601) = 4330661401679469 / 2 ^ 53"
    by (simp add: fl_literals) (simp add: fl_at pow2_def round_half_even_def Let_def)
  have s4a: "fl (1 - 7566047373982433 / 2 ^ 54) = 326510972984361 / 2 ^ 49"
    by (simp add: fl_at pow2_def round_half_even_def Let_def)
  have s4b: "fl (326510972984361 / 2 ^ 49 - 4330661401679469 / 2 ^ 53) = 893514166070307 / 2 ^ 53"
    by (simp add: fl_at pow2_def round_half_even_def Let_def)
  have s4: "max (fl 0.1) (fl (fl (1 - 7566047373982433 / 2 ^ 54) - 4330661401679469 / 2 ^ 53))
         = 3602879701896397 / 2 ^ 55"
    unfolding s4a s4b by (simp add: fl_literals)
  have s5a: "fl (1 - 3602879701896397 / 2 ^ 55) = 8106479329266893 / 2 ^ 53"
    by (simp add: fl_at pow2_def round_half_even_def Let_def)
  have s5b: "fl (5404319552844595 / 2 ^ 53 * (8106479329266893 / 2 ^ 53)) = 607985949695017 / 2 ^ 50"
    by (simp add: fl_at pow2_def round_half_even_def Let_def)
  have s5: "fl (fl 0.6 * fl (1 - 3602879701896397 / 2 ^ 55)) = 607985949695017 / 2 ^ 50"
    unfolding s5a fl_literals s5b ..
  have s6: "fl (3602879701896397 / 2 ^ 55 + 607985949695017 / 2 ^ 50) = 5764607523034235 / 2 ^ 53"
    by (simp add: fl_at pow2_def round_half_even_def Let_def)
  show ?thesis
    unfolding penalty_f64_steps [OF s1 s2 s3 s4 s5 s6] by simp
qed

text \<open>
  Claim C3, as stated, fails for the program's arithmetic. With 10 active modules, no queue
  tolerance and a latency reduction of 0.6, a queue of 600 gives the penalty
  0.6399999999999999 and the longer queue of 601 gives the larger penalty 0.64. The raw
  penalty does fall, from 0.10000000000000003 to the floor 0.1; the three roundings in
  \<open>rawPenalty + latencyReductionPct * (1 - rawPenalty)\<close> turn the smaller raw penalty into
  the larger result.
\<close>

theorem penalty_f64_rises_with_queue:
  "(0::real) \<le> 10 \<and> (0::real) \<le> 600 \<and> (600::real) \<le> 601 \<and> 0 \<le> fl 0.6 \<and> fl 0.6 \<le> 1
   \<and> calculateLatency_penalty_f64 10 600 0 (fl 0.6) = 2882303761517117 / 2 ^ 52
   \<and> calculateLatency_penalty_f64 10 601 0 (fl 0.6) = 5764607523034235 / 2 ^ 53
   \<and> calculateLatency_penalty_f64 10 600 0 (fl 0.6) < calculateLatency_penalty_f64 10 601 0 (fl 0.6)"
proof -
  have "0 \<le> fl 0.6" "fl 0.6 \<le> 1"
    unfolding fl_literals by simp_all
  moreover have "calculateLatency_penalty_f64 10 600 0 (fl 0.6)
      < calculateLatency_penalty_f64 10 601 0 (fl 0.6)"
    unfolding penalty_f64_10_600 penalty_f64_10_601 by simp
  ultimately show ?thesis
    unfolding penalty_f64_10_600 penalty_f64_10_601 by simp
qed

text \<open>The ingredients of the amended claim.\<close>

lemma fl_tenth: "1 / 10 \<le> fl 0.1" "fl 0.1 \<le> 1"
  unfolding fl_literals by simp_all

text \<open>The raw penalty, as a function of the two rounded penalties.\<close>

lemma rawPenalty_f64_bounds:
  assumes "0 \<le> dp" "0 \<le> qp"
  shows "fl 0.1 \<le> max (fl 0.1) (fl (fl (1 - dp) - qp))"
    and "max (fl 0.1) (fl (fl (1 - dp) - qp)) \<le> 1"
    and "fl (max (fl 0.1) (fl (fl (1 - dp) - qp))) = max (fl 0.1) (fl (fl (1 - dp) - qp))"
proof -
  show "fl 0.1 \<le> max (fl 0.1) (fl (fl (1 - dp) - qp))"
    by simp
  have "fl (1 - dp) \<le> fl 1"
    using assms(1) by (intro fl_mono) simp
  then have "fl (1 - dp) - qp \<le> 1"
    using assms(2) by (simp add: fl_1)
  then have "fl (fl (1 - dp) - qp) \<le> fl 1"
    by (rule fl_mono)
  then show "max (fl 0.1) (fl (fl (1 - dp) - qp)) \<le> 1"
    using fl_tenth(2) by (simp add: fl_1)
  show "fl (max (fl 0.1) (fl (fl (1 - dp) - qp))) = max (fl 0.1) (fl (fl (1 - dp) - qp))"
    by (simp add: max_def fl_fl)
qed

lemma rawPenalty_f64_mono:
  assumes "dp \<le> dp'" "qp \<le> qp'"
  shows "max (fl 0.1) (fl (fl (1 - dp') - qp')) \<le> max (fl 0.1) (fl (fl (1 - dp) - qp))"
proof -
  have "fl (1 - dp') \<le> fl (1 - dp)"
    using assms(1) by (intro fl_mono) simp
  then have "fl (1 - dp') - qp' \<le> fl (1 - dp) - qp"
    using assms(2) by simp
  then have "fl (fl (1 - dp') - qp') \<le> fl (fl (1 - dp) - qp)"
    by (rule fl_mono)
  then show ?thesis
    by (rule max.mono [OF order_refl])
qed

lemma depthPenalty_f64:
  shows "0 \<le> fl (fl 0.06 * max 0 (fl (m - 3)))"
    and "m \<le> m' \<Longrightarrow> fl (fl 0.06 * max 0 (fl (m - 3))) \<le> fl (fl 0.06 * max 0 (fl (m' - 3)))"
proof -
  have c: "0 \<le> fl 0.06" by (rule fl_nonneg) simp
  show "0 \<le> fl (fl 0.06 * max 0 (fl (m - 3)))"
    using c by (intro fl_nonneg mult_nonneg_nonneg) simp_all
  show "fl (fl 0.06 * max 0 (fl (m - 3))) \<le> fl (fl 0.06 * max 0 (fl (m' - 3)))" if "m \<le> m'"
  proof -
    have "fl (m - 3) \<le> fl (m' - 3)" using that by (intro fl_mono) simp
    then have "max 0 (fl (m - 3)) \<le> max 0 (fl (m' - 3))" by (rule max.mono [OF order_refl])
    then show ?thesis using c by (intro fl_mono mult_left_mono)
  qed
qed

lemma queuePenalty_f64:
  shows "0 \<le> fl (fl 0.0008 * max 0 (fl (q - t)))"
    and "q \<le> q' \<Longrightarrow> fl (fl 0.0008 * max 0 (fl (q - t))) \<le> fl (fl 0.0008 * max 0 (fl (q' - t)))"
proof -
  have c: "0 \<le> fl 0.0008" by (rule fl_nonneg) simp
  show "0 \<le> fl (fl 0.0008 * max 0 (fl (q - t)))"
    using c by (intro fl_nonneg mult_nonneg_nonneg) simp_all
  show "fl (fl 0.0008 * max 0 (fl (q - t))) \<le> fl (fl 0.0008 * max 0 (fl (q' - t)))" if "q \<le> q'"
  proof -
    have "fl (q - t) \<le> fl (q' - t)" using that by (intro fl_mono) simp
    then have "max 0 (fl (q - t)) \<le> max 0 (fl (q' - t))" by (rule max.mono [OF order_refl])
    then show ?thesis using c by (intro fl_mono mult_left_mono)
  qed
qed

text \<open>The last line of the function, \<open>rawPenalty + latencyReductionPct * (1 - rawPenalty)\<close>.\<close>

lemma recover_f64_lower:
  assumes "x \<le> 1" "fl x = x" "0 \<le> r"
  shows "x \<le> fl (x + fl (r * fl (1 - x)))"
proof -
  have "0 \<le> fl (1 - x)" using assms(1) by (intro fl_nonneg) simp
  then have "0 \<le> r * fl (1 - x)" using assms(3) by (intro mult_nonneg_nonneg)
  then have "0 \<le> fl (r * fl (1 - x))" by (rule fl_nonneg)
  then have "fl x \<le> fl (x + fl (r * fl (1 - x)))" by (intro fl_mono) simp
  then show ?thesis by (simp add: assms(2))
qed

lemma recover_f64_zero:
  assumes "fl x = x"
  shows "fl (x + fl (0 * fl (1 - x))) = x"
  by (simp add: fl_0 assms)

lemma recover_f64_error:
  assumes x: "1 / 10 \<le> x" "x \<le> 1" and r: "0 \<le> r" "r \<le> 1"
  shows "\<bar>fl (x + fl (r * fl (1 - x))) - (x + r * (1 - x))\<bar> \<le> 1 / 2 ^ 52"
proof -
  define a where "a = fl (1 - x)"
  define b where "b = fl (r * a)"
  have p: "pow2 (- 54) = 1 / 2 ^ 54" "pow2 (- 53) = 1 / 2 ^ 53" "pow2 0 = 1" "pow2 1 = 2"
    by (simp_all add: pow2_def)
  have ea: "\<bar>a - (1 - x)\<bar> \<le> 1 / 2 ^ 54"
    using fl_error_below [of "1 - x" 0] x by (simp add: a_def p abs_if)
  have a0: "0 \<le> a" unfolding a_def using x by (intro fl_nonneg) simp
  have a1: "a \<le> 9 / 10 + 1 / 2 ^ 54" using ea x by (simp add: abs_if split: if_splits)
  have ra: "0 \<le> r * a" "r * a \<le> a"
    using r a0 by (simp_all add: mult_left_le_one_le)
  have eb: "\<bar>b - r * a\<bar> \<le> 1 / 2 ^ 54"
    using fl_error_below [of "r * a" 0] ra a1 by (simp add: b_def p abs_if)
  have b0: "0 \<le> b" unfolding b_def using ra by (intro fl_nonneg)
  have b1: "b \<le> 9 / 10 + 1 / 2 ^ 53"
    using eb ra a1 by (simp add: abs_if split: if_splits)
  have ec: "\<bar>fl (x + b) - (x + b)\<bar> \<le> 1 / 2 ^ 53"
    using fl_error_below [of "x + b" 1] x b0 b1 by (simp add: p abs_if)
  have "r * \<bar>a - (1 - x)\<bar> \<le> 1 * (1 / 2 ^ 54)"
    using r ea by (intro mult_mono) simp_all
  then have era: "\<bar>r * a - r * (1 - x)\<bar> \<le> 1 / 2 ^ 54"
    using r by (simp add: abs_mult right_diff_distrib [symmetric])
  have "fl (x + b) - (x + r * (1 - x))
      = (fl (x + b) - (x + b)) + (b - r * a) + (r * a - r * (1 - x))"
    by simp
  then have "\<bar>fl (x + b) - (x + r * (1 - x))\<bar>
      \<le> \<bar>fl (x + b) - (x + b)\<bar> + \<bar>b - r * a\<bar> + \<bar>r * a - r * (1 - x)\<bar>"
    by linarith
  also have "\<dots> \<le> 1 / 2 ^ 53 + 1 / 2 ^ 54 + 1 / 2 ^ 54"
    using ec eb era by linarith
  also have "\<dots> = 1 / 2 ^ 52" by simp
  finally show ?thesis by (simp add: a_def b_def)
qed

lemma recover_f64_near_mono:
  assumes x: "1 / 10 \<le> x" "x \<le> y" "y \<le> 1" and r: "0 \<le> r" "r \<le> 1"
  shows "min 1 (fl (x + fl (r * fl (1 - x)))) \<le> min 1 (fl (y + fl (r * fl (1 - y)))) + 1 / 2 ^ 51"
proof -
  have ex: "\<bar>fl (x + fl (r * fl (1 - x))) - (x + r * (1 - x))\<bar> \<le> 1 / 2 ^ 52"
    using x r by (intro recover_f64_error) simp_all
  have ey: "\<bar>fl (y + fl (r * fl (1 - y))) - (y + r * (1 - y))\<bar> \<le> 1 / 2 ^ 52"
    using x r by (intro recover_f64_error) simp_all
  have "(y + r * (1 - y)) - (x + r * (1 - x)) = (y - x) * (1 - r)"
    by (simp add: algebra_simps)
  moreover have "0 \<le> (y - x) * (1 - r)"
    using x r by (intro mult_nonneg_nonneg) simp_all
  ultimately have g: "x + r * (1 - x) \<le> y + r * (1 - y)"
    by linarith
  have h: "(1 / 2 ^ 52 :: real) + 1 / 2 ^ 52 = 1 / 2 ^ 51" by simp
  from ex ey g h show ?thesis
    by (simp add: min_def abs_if split: if_splits)
qed


text \<open>
  No overflow on the way to the penalty: for finite non-negative arguments every value that
  is rounded has a magnitude of at most \<open>double_max\<close>, so the rounding never yields Infinity
  and the unbounded exponent range of \<open>fl\<close> is never used.
\<close>

lemma fl_within:
  assumes "\<bar>x\<bar> \<le> (2 ^ 53 - 1) * pow2 (e - 52)" "- 1022 \<le> e"
  shows "\<bar>fl x\<bar> \<le> (2 ^ 53 - 1) * pow2 (e - 52)"
proof -
  define d where "d = (2 ^ 53 - 1) * pow2 (e - 52)"
  have a: "fl d = d"
    unfolding d_def using fl_grid [of "2 ^ 53 - 1" e] assms(2) by simp
  have b: "fl (- d) = - d"
    unfolding d_def using fl_grid [of "- (2 ^ 53 - 1)" e] assms(2) by simp
  have x: "\<bar>x\<bar> \<le> d" using assms(1) by (simp add: d_def)
  have "fl x \<le> fl d" using x by (intro fl_mono) simp
  moreover have "fl (- d) \<le> fl x" using x by (intro fl_mono) simp
  ultimately have "\<bar>fl x\<bar> \<le> d" by (simp add: a b abs_if)
  then show ?thesis by (simp add: d_def)
qed

lemma calculateLatency_penalty_f64_no_overflow:
  assumes m: "0 \<le> m" "m \<le> double_max" and q: "0 \<le> q" "q \<le> double_max"
    and t: "0 \<le> t" "t \<le> double_max" and r: "0 \<le> r" "r \<le> 1"
  defines "effectiveQueue \<equiv> max 0 (fl (q - t))"
    and "depth \<equiv> max 0 (fl (m - 3))"
    and "depthPenalty \<equiv> fl (fl 0.06 * max 0 (fl (m - 3)))"
    and "queuePenalty \<equiv> fl (fl 0.0008 * max 0 (fl (q - t)))"
  defines "rawPenalty \<equiv> max (fl 0.1) (fl (fl (1 - depthPenalty) - queuePenalty))"
  shows "\<bar>q - t\<bar> \<le> double_max"
    and "\<bar>m - 3\<bar> \<le> double_max"
    and "\<bar>fl 0.06 * depth\<bar> \<le> double_max"
    and "\<bar>fl 0.0008 * effectiveQueue\<bar> \<le> double_max"
    and "\<bar>1 - depthPenalty\<bar> \<le> double_max"
    and "\<bar>fl (1 - depthPenalty) - queuePenalty\<bar> \<le> double_max"
    and "\<bar>1 - rawPenalty\<bar> \<le> double_max"
    and "\<bar>r * fl (1 - rawPenalty)\<bar> \<le> double_max"
    and "\<bar>rawPenalty + fl (r * fl (1 - rawPenalty))\<bar> \<le> double_max"
proof -
  define D where "D = (2 ^ 53 - 1) * pow2 (1019 - 52)"
  have dm: "double_max = (2 ^ 53 - 1) * pow2 (1023 - 52)"
    by (simp add: double_max_def)
  have "pow2 971 = pow2 (967 + 4)" by simp
  also have "\<dots> = pow2 967 * pow2 4" by (rule pow2_add)
  finally have p: "pow2 971 = 16 * pow2 967" by (simp add: pow2_def [of 4])
  have D16: "double_max = 16 * D"
    by (simp add: double_max_def D_def p)
  have "pow2 0 \<le> pow2 967" by (rule pow2_mono) simp
  then have "1 \<le> pow2 967" by (simp add: pow2_0)
  then have "(2 ^ 53 - 1) * 1 \<le> (2 ^ 53 - 1) * pow2 967"
    by (intro mult_left_mono) simp_all
  then have D3: "3 \<le> D" by (simp add: D_def)
  have within: "\<bar>x\<bar> \<le> double_max \<Longrightarrow> \<bar>fl x\<bar> \<le> double_max" for x
    unfolding dm by (rule fl_within) simp_all
  have withinD: "\<bar>x\<bar> \<le> D \<Longrightarrow> \<bar>fl x\<bar> \<le> D" for x
    unfolding D_def by (rule fl_within) simp_all
  have c1: "0 \<le> fl 0.06" "fl 0.06 \<le> 1 / 16" and c2: "0 \<le> fl 0.0008" "fl 0.0008 \<le> 1 / 16"
    unfolding fl_literals by simp_all
  show s1: "\<bar>q - t\<bar> \<le> double_max" using q t by (simp add: abs_if)
  show s2: "\<bar>m - 3\<bar> \<le> double_max" using m D3 D16 by (simp add: abs_if)
  have e: "0 \<le> effectiveQueue" "effectiveQueue \<le> double_max"
    using within [OF s1] by (simp_all add: effectiveQueue_def abs_if split: if_splits)
  have d: "0 \<le> depth" "depth \<le> double_max"
    using within [OF s2] by (simp_all add: depth_def abs_if split: if_splits)
  have "fl 0.06 * depth \<le> (1 / 16) * double_max"
    using c1 d by (intro mult_mono) simp_all
  then have pd: "0 \<le> fl 0.06 * depth" "fl 0.06 * depth \<le> D"
    using c1 d by (simp_all add: D16)
  then show "\<bar>fl 0.06 * depth\<bar> \<le> double_max" using D16 D3 by simp
  have "fl 0.0008 * effectiveQueue \<le> (1 / 16) * double_max"
    using c2 e by (intro mult_mono) simp_all
  then have pq: "0 \<le> fl 0.0008 * effectiveQueue" "fl 0.0008 * effectiveQueue \<le> D"
    using c2 e by (simp_all add: D16)
  then show "\<bar>fl 0.0008 * effectiveQueue\<bar> \<le> double_max" using D16 D3 by simp
  have dp: "0 \<le> depthPenalty" "depthPenalty \<le> D"
    using withinD [of "fl 0.06 * depth"] pd fl_nonneg [OF pd(1)]
    by (simp_all add: depthPenalty_def depth_def)
  have qp: "0 \<le> queuePenalty" "queuePenalty \<le> D"
    using withinD [of "fl 0.0008 * effectiveQueue"] pq fl_nonneg [OF pq(1)]
    by (simp_all add: queuePenalty_def effectiveQueue_def)
  have s5: "\<bar>1 - depthPenalty\<bar> \<le> D" using dp D3 by (simp add: abs_if)
  then show "\<bar>1 - depthPenalty\<bar> \<le> double_max" using D16 D3 by simp
  have "\<bar>fl (1 - depthPenalty)\<bar> \<le> D" by (rule withinD [OF s5])
  then show "\<bar>fl (1 - depthPenalty) - queuePenalty\<bar> \<le> double_max"
    using qp D16 by (simp add: abs_if split: if_splits)
  have raw: "fl 0.1 \<le> rawPenalty" "rawPenalty \<le> 1"
    unfolding rawPenalty_def by (rule rawPenalty_f64_bounds [OF dp(1) qp(1)])+
  have raw0: "0 \<le> rawPenalty" using raw(1) fl_tenth(1) by linarith
  then have s7: "0 \<le> 1 - rawPenalty" "1 - rawPenalty \<le> 1" using raw(2) by simp_all
  then show "\<bar>1 - rawPenalty\<bar> \<le> double_max" using D16 D3 by simp
  have a: "0 \<le> fl (1 - rawPenalty)" "fl (1 - rawPenalty) \<le> 1"
    using fl_nonneg [OF s7(1)] fl_mono [OF s7(2)] by (simp_all add: fl_1)
  have ra: "0 \<le> r * fl (1 - rawPenalty)" "r * fl (1 - rawPenalty) \<le> 1"
    using r a by (simp_all add: mult_le_one)
  then show "\<bar>r * fl (1 - rawPenalty)\<bar> \<le> double_max" using D16 D3 by simp
  have b: "0 \<le> fl (r * fl (1 - rawPenalty))" "fl (r * fl (1 - rawPenalty)) \<le> 1"
    using fl_nonneg [OF ra(1)] fl_mono [OF ra(2)] by (simp_all add: fl_1)
  show "\<bar>rawPenalty + fl (r * fl (1 - rawPenalty))\<bar> \<le> double_max"
    using raw0 raw(2) b D16 D3 by simp
qed

text \<open>
  Claim C3, amended. For every non-negative activeModuleCount, queueSize and queueTolerance
  and every latencyReductionPct in [0, 1], the penalty that calculateLatency returns lies
  between 0.1 (the double nearest to it, which is above 1/10) and 1. With
  latencyReductionPct = 0 the penalty does not increase when the module count grows and does
  not increase when the queue grows. With a positive latencyReductionPct it does so only up
  to rounding: a larger module count or a longer queue never raises the penalty by more than
  \<open>2^-51\<close> (about 4.4e-16).
\<close>

theorem calculateLatency_penalty_f64_bounds:
  assumes "0 \<le> m" "0 \<le> q" "0 \<le> t" "0 \<le> r" "r \<le> 1" "m \<le> m'" "q \<le> q'"
  shows "fl 0.1 \<le> calculateLatency_penalty_f64 m q t r
       \<and> 0.1 \<le> calculateLatency_penalty_f64 m q t r
       \<and> calculateLatency_penalty_f64 m q t r \<le> 1.0
       \<and> calculateLatency_penalty_f64 m' q t 0 \<le> calculateLatency_penalty_f64 m q t 0
       \<and> calculateLatency_penalty_f64 m q' t 0 \<le> calculateLatency_penalty_f64 m q t 0
       \<and> calculateLatency_penalty_f64 m' q t r
            \<le> calculateLatency_penalty_f64 m q t r + 1 / 2 ^ 51
       \<and> calculateLatency_penalty_f64 m q' t r
            \<le> calculateLatency_penalty_f64 m q t r + 1 / 2 ^ 51"
proof -
  define dp where "dp mm = fl (fl 0.06 * max 0 (fl (mm - 3)))" for mm
  define qp where "qp qq = fl (fl 0.0008 * max 0 (fl (qq - t)))" for qq
  define raw where "raw mm qq = max (fl 0.1) (fl (fl (1 - dp mm) - qp qq))" for mm qq
  have pen: "calculateLatency_penalty_f64 mm qq t rr
           = min 1 (fl (raw mm qq + fl (rr * fl (1 - raw mm qq))))" for mm qq rr
    unfolding calculateLatency_penalty_f64_def Let_def raw_def dp_def qp_def ..
  have dp0: "0 \<le> dp mm" for mm
    unfolding dp_def by (rule depthPenalty_f64(1))
  have qp0: "0 \<le> qp qq" for qq
    unfolding qp_def by (rule queuePenalty_f64(1))
  have lo: "fl 0.1 \<le> raw mm qq" and hi: "raw mm qq \<le> 1" and rep: "fl (raw mm qq) = raw mm qq"
    for mm qq
    unfolding raw_def by (rule rawPenalty_f64_bounds [OF dp0 qp0])+
  have lo': "1 / 10 \<le> raw mm qq" for mm qq
    using lo [of mm qq] fl_tenth(1) by linarith
  have zero: "calculateLatency_penalty_f64 mm qq t 0 = raw mm qq" for mm qq
    unfolding pen recover_f64_zero [OF rep] using hi [of mm qq] by simp
  have rm: "raw m' q \<le> raw m q"
    unfolding raw_def dp_def
    by (intro rawPenalty_f64_mono depthPenalty_f64(2) order_refl \<open>m \<le> m'\<close>)
  have rq: "raw m q' \<le> raw m q"
    unfolding raw_def qp_def
    by (intro rawPenalty_f64_mono queuePenalty_f64(2) order_refl \<open>q \<le> q'\<close>)
  have "raw m q \<le> fl (raw m q + fl (r * fl (1 - raw m q)))"
    by (rule recover_f64_lower [OF hi rep \<open>0 \<le> r\<close>])
  with lo [of m q] fl_tenth(2) have b1: "fl 0.1 \<le> calculateLatency_penalty_f64 m q t r"
    by (simp add: pen)
  with fl_tenth(1) have b2: "0.1 \<le> calculateLatency_penalty_f64 m q t r"
    by simp
  have b3: "calculateLatency_penalty_f64 m q t r \<le> 1.0"
    by (simp add: pen)
  have b4: "calculateLatency_penalty_f64 m' q t 0 \<le> calculateLatency_penalty_f64 m q t 0"
    using rm by (simp only: zero)
  have b5: "calculateLatency_penalty_f64 m q' t 0 \<le> calculateLatency_penalty_f64 m q t 0"
    using rq by (simp only: zero)
  have b6: "calculateLatency_penalty_f64 m' q t r
          \<le> calculateLatency_penalty_f64 m q t r + 1 / 2 ^ 51"
    unfolding pen
    by (rule recover_f64_near_mono [OF lo' rm hi \<open>0 \<le> r\<close> \<open>r \<le> 1\<close>])
  have b7: "calculateLatency_penalty_f64 m q' t r
          \<le> calculateLatency_penalty_f64 m q t r + 1 / 2 ^ 51"
    unfolding pen
    by (rule recover_f64_near_mono [OF lo' rq hi \<open>0 \<le> r\<close> \<open>r \<le> 1\<close>])
  from b1 b2 b3 b4 b5 b6 b7 show ?thesis
    by blast
qed

text \<open>Four and five modules, queues of 100 and 500, tolerance 10, reduction 0.3.\<close>

theorem calculateLatency_penalty_f64_bounds_witness:
  "(0::real) \<le> 4 \<and> (0::real) \<le> 100 \<and> (0::real) \<le> 10 \<and> (0::real) \<le> 0.3 \<and> (0.3::real) \<le> 1
   \<and> (4::real) \<le> 5 \<and> (100::real) \<le> 500
   \<and> fl 0.1 \<le> calculateLatency_penalty_f64 4 100 10 0.3
   \<and> 0.1 \<le> calculateLatency_penalty_f64 4 100 10 0.3
   \<and> calculateLatency_penalty_f64 4 100 10 0.3 \<le> 1.0
   \<and> calculateLatency_penalty_f64 5 100 10 0 \<le> calculateLatency_penalty_f64 4 100 10 0
   \<and> calculateLatency_penalty_f64 4 500 10 0 \<le> calculateLatency_penalty_f64 4 100 10 0
   \<and> calculateLatency_penalty_f64 5 100 10 0.3
        \<le> calculateLatency_penalty_f64 4 100 10 0.3 + 1 / 2 ^ 51
   \<and> calculateLatency_penalty_f64 4 500 10 0.3
        \<le> calculateLatency_penalty_f64 4 100 10 0.3 + 1 / 2 ^ 51"
  using calculateLatency_penalty_f64_bounds [of 4 100 10 "0.3" 5 500]
  by simp

section \<open>Fragment drops\<close>

lemma contractProgress_fragments:
  "fragments (resources (contractProgress p d s))
     = fragments (resources s)
       + (if completedContractCount (contractProgress p d s) = completedContractCount s then 0
          else (case List.find (\<lambda>c. Some (cid c) = activeContractId s) (contracts s) of
                  None \<Rightarrow> 0 | Some c \<Rightarrow> rewardFragments c))"
  by (simp add: contractProgress_def completionStep_def case_prod_beta expiryStep_frame
      expiryStep_contract split: option.splits)

lemma processTick_fragments:
  "fragments (resources (processTick s d))
     = fragments (resources s)
       + (if int (tickCount s + 1) mod calculateFragmentInterval s = 0 then 1 else 0)
       + (if completedContractCount (processTick s d) = completedContractCount s then 0
          else (case List.find (\<lambda>c. Some (cid c) = activeContractId s) (contracts s) of
                  None \<Rightarrow> 0 | Some c \<Rightarrow> rewardFragments c))"
  using contractProgress_fragments
    [of "totalPayloadThisTick s d" d "fragmentDrop (calculateFragmentInterval s) (accumulate s d)"]
  by (simp add: processTick_def prestigeReadiness_frame fragmentDrop_frame fragmentDrop_fields
      accumulate_frame accumulate_fields)

lemma processTick_idle:
  assumes "activeContractId s = None"
  shows "activeContractId (processTick s d) = None"
    and "completedContractCount (processTick s d) = completedContractCount s"
  using assms
  by (simp_all add: processTick_def prestigeReadiness_frame contractProgress_idle
      fragmentDrop_frame accumulate_frame)

lemma runTicks_snoc: "runTicks s (ds @ [d]) = processTick (runTicks s ds) d"
  by (simp add: runTicks_def)

lemma runTicks_idle:
  assumes "activeContractId s = None"
  shows "activeContractId (runTicks s ds) = None
       \<and> tickCount (runTicks s ds) = tickCount s + length ds
       \<and> calculateFragmentInterval (runTicks s ds) = calculateFragmentInterval s"
proof (induction ds rule: rev_induct)
  case Nil
  show ?case using assms by (simp add: runTicks_def)
next
  case (snoc d ds)
  have "calculateFragmentInterval (processTick (runTicks s ds) d)
      = calculateFragmentInterval (runTicks s ds)"
    by (rule calculateFragmentInterval_cong) (simp_all add: processTick_frame)
  with snoc show ?case
    by (simp add: runTicks_snoc processTick_idle processTick_counters)
qed

lemma runTicks_fragments:
  assumes "activeContractId s = None"
  shows "fragments (resources (runTicks s ds))
       = fragments (resources s)
         + real (length (filter (\<lambda>k. int (tickCount s + k) mod calculateFragmentInterval s = 0)
                           [1 ..< Suc (length ds)]))"
proof (induction ds rule: rev_induct)
  case Nil
  show ?case by (simp add: runTicks_def)
next
  case (snoc d ds)
  note idle = runTicks_idle [OF assms, of ds]
  have "fragments (resources (runTicks s (ds @ [d])))
      = fragments (resources (runTicks s ds))
        + (if int (tickCount s + Suc (length ds)) mod calculateFragmentInterval s = 0
           then 1 else 0)"
    using idle processTick_fragments [of "runTicks s ds" d]
    by (simp add: runTicks_snoc processTick_idle)
  with snoc show ?case
    by (simp add: ac_simps)
qed

text \<open>
  Claim C10. One call of processTick raises the fragment count by the drop, which is 1 when
  the incremented step counter is a multiple of the drop interval and 0 otherwise and does not
  depend on deltaSeconds, plus the reward of a contract completed in this call, if any. The
  step counter increases by exactly 1 per call. Hence, while no contract is active, a run of
  calls awards one fragment per multiple of the interval among the step numbers it passes:
  the number of calls matters, the simulated seconds do not.
\<close>

theorem fragment_drop_once_per_call:
  "fragments (resources (processTick s d))
     = fragments (resources s)
       + (if int (tickCount s + 1) mod calculateFragmentInterval s = 0 then 1 else 0)
       + (if completedContractCount (processTick s d) = completedContractCount s then 0
          else (case List.find (\<lambda>c. Some (cid c) = activeContractId s) (contracts s) of
                  None \<Rightarrow> 0 | Some c \<Rightarrow> rewardFragments c))
   \<and> tickCount (processTick s d) = tickCount s + 1
   \<and> (activeContractId s = None \<longrightarrow>
        fragments (resources (runTicks s ds))
          = fragments (resources s)
            + real (length (filter (\<lambda>k. int (tickCount s + k) mod calculateFragmentInterval s = 0)
                              [1 ..< Suc (length ds)])))"
  using processTick_fragments [of s d] runTicks_fragments [of s ds]
  by (simp add: processTick_counters)

lemma secure_start_interval:
  "calculateFragmentInterval ((createInitialState 0)\<lparr>activeProtocol := secure\<rparr>) = 13"
  by (simp add: calculateFragmentInterval_def createInitialState_def js_round_def lookup0_def)

text \<open>
  On a fresh state switched to the secure protocol (drop interval 13), one 60-second call
  awards no fragment, sixty 1-second calls award four.
\<close>

theorem fragment_drop_once_per_call_witness:
  "activeContractId ((createInitialState 0)\<lparr>activeProtocol := secure\<rparr>) = None
   \<and> fragments (resources (processTick ((createInitialState 0)\<lparr>activeProtocol := secure\<rparr>) 60)) = 0
   \<and> fragments (resources (runTicks ((createInitialState 0)\<lparr>activeProtocol := secure\<rparr>)
                                 (replicate 60 1))) = 4"
proof -
  let ?s = "(createInitialState 0)\<lparr>activeProtocol := secure\<rparr>"
  have idle: "activeContractId ?s = None"
    by (simp add: createInitialState_def)
  have t0: "tickCount (createInitialState 0) = 0"
    and f0: "fragments (resources (createInitialState 0)) = 0"
    by (simp_all add: createInitialState_def)
  have same: "completedContractCount (processTick ?s 60) = completedContractCount ?s"
    by (rule processTick_idle [OF idle])
  have cnt: "length (filter (\<lambda>k. int k mod 13 = 0) [Suc 0 ..< 61]) = 4"
    by code_simp
  from fragment_drop_once_per_call [of ?s 60 "replicate 60 1"] idle same
  show ?thesis
    by (simp add: secure_start_interval t0 f0 cnt)
qed

section \<open>Completion and expiry in the same step\<close>

lemma find_replaceFirst:
  "List.find P xs = Some x \<Longrightarrow> P y \<Longrightarrow> List.find P (replaceFirst P y xs) = Some y"
  by (induction xs) (auto split: if_splits)

lemma contractProgress_tie:
  assumes ptr: "activeContractId s = Some a" "a \<noteq> []"
    and found: "List.find (\<lambda>x. Some (cid x) = activeContractId s) (contracts s) = Some c"
    and act: "active c"
    and timed: "timeRemainingS c = Some tr" "tr - d \<le> 0"
    and met: "targetPayload c \<le> progressPayload c + p"
  shows "contractProgress p d s =
      s\<lparr>resources := (resources s)
            \<lparr>credits := credits (resources s) + rewardCredits c,
             fragments := fragments (resources s) + rewardFragments c\<rparr>,
        stats := (stats s)\<lparr>totalCreditsEarned := totalCreditsEarned (stats s) + rewardCredits c\<rparr>,
        completedContractCount := completedContractCount s + 1,
        highTierContractsCompleted :=
          (if tier c = high then highTierContractsCompleted s + 1
           else highTierContractsCompleted s),
        activeContractId := None,
        contracts := replaceFirst (\<lambda>x. Some (cid x) = activeContractId s)
          (c\<lparr>progressPayload := progressPayload c + p, timeRemainingS := Some (tr - d),
             active := False, expired := False\<rparr>) (contracts s)\<rparr>"
  using assms
  by (simp add: contractProgress_def truthy_def expiryStep_def completionStep_def Let_def)

text \<open>
  Claim C5. Let the active pointer name a contract that is found on the board, is active and
  carries a time budget. If in one call of processTick the remaining time drops to zero
  (or below) and the progress, increased by this call's payload, meets the target, then in
  the resulting state the contract is completed: not active, not expired, its rewards are
  added to credits, fragments and lifetime credits, the completion counter is incremented
  (and the high-tier counter for a high-tier contract), and the active pointer is cleared.
\<close>

theorem tie_resolves_to_completion:
  assumes "activeContractId s = Some a" "a \<noteq> []"
    and "List.find (\<lambda>x. Some (cid x) = activeContractId s) (contracts s) = Some c"
    and "active c"
    and "timeRemainingS c = Some tr" "tr - d \<le> 0"
    and "targetPayload c \<le> progressPayload c + totalPayloadThisTick s d"
  shows "List.find (\<lambda>x. cid x = a) (contracts (processTick s d))
           = Some (c\<lparr>progressPayload := progressPayload c + totalPayloadThisTick s d,
                     timeRemainingS := Some (tr - d), active := False, expired := False\<rparr>)
       \<and> activeContractId (processTick s d) = None
       \<and> completedContractCount (processTick s d) = completedContractCount s + 1
       \<and> highTierContractsCompleted (processTick s d)
           = highTierContractsCompleted s + (if tier c = high then 1 else 0)
       \<and> credits (resources (processTick s d))
           = credits (resources s) + totalPayloadThisTick s d * calculateCreditRate s
             + rewardCredits c
       \<and> fragments (resources (processTick s d))
           = fragments (resources s)
             + (if int (tickCount s + 1) mod calculateFragmentInterval s = 0 then 1 else 0)
             + rewardFragments c
       \<and> totalCreditsEarned (stats (processTick s d))
           = totalCreditsEarned (stats s) + totalPayloadThisTick s d * calculateCreditRate s
             + rewardCredits c"
proof -
  let ?s4 = "fragmentDrop (calculateFragmentInterval s) (accumulate s d)"
  let ?c' = "c\<lparr>progressPayload := progressPayload c + totalPayloadThisTick s d,
               timeRemainingS := Some (tr - d), active := False, expired := False\<rparr>"
  have ptr4: "activeContractId ?s4 = Some a"
    using assms(1) by (simp add: fragmentDrop_frame accumulate_frame)
  have found4: "List.find (\<lambda>x. Some (cid x) = activeContractId ?s4) (contracts ?s4) = Some c"
    using assms(3) by (simp add: fragmentDrop_frame accumulate_frame)
  note tie = contractProgress_tie [OF ptr4 assms(2) found4 assms(4) assms(5) assms(6) assms(7)]
  have cid_c: "cid c = a"
    using assms(1,3) by (auto dest: find_Some_iff [THEN iffD1])
  have "List.find (\<lambda>x. Some (cid x) = Some a) (replaceFirst (\<lambda>x. Some (cid x) = Some a) ?c' (contracts s))
      = Some ?c'"
    using assms(1,3) cid_c by (intro find_replaceFirst [where x = c]) simp_all
  then have f: "List.find (\<lambda>x. cid x = a) (replaceFirst (\<lambda>x. cid x = a) ?c' (contracts s)) = Some ?c'"
    by simp
  show ?thesis
    unfolding processTick_def tie
    using f assms(1)
    by (simp add: prestigeReadiness_frame prestigeReadiness_def fragmentDrop_frame
        fragmentDrop_fields accumulate_frame accumulate_fields)
qed

lemma tieState_payload: "totalPayloadThisTick tieState 1 = 5"
  using fresh_runLanes [of tieState 1]
  by (simp add: totalPayloadThisTick_def tieState_def createInitialState_def)

text \<open>
  A fresh state whose only contract has target 5 and one second left: one 1-second tick
  produces payload 5, so the target and the time limit are reached together.
\<close>

theorem tie_resolves_to_completion_witness:
  "activeContractId tieState = Some ''timed_contract'' \<and> ''timed_contract'' \<noteq> []
   \<and> List.find (\<lambda>x. Some (cid x) = activeContractId tieState) (contracts tieState)
       = Some tieContract
   \<and> active tieContract \<and> timeRemainingS tieContract = Some 1 \<and> (1::real) - 1 \<le> 0
   \<and> targetPayload tieContract \<le> progressPayload tieContract + totalPayloadThisTick tieState 1
   \<and> List.find (\<lambda>x. cid x = ''timed_contract'') (contracts (processTick tieState 1))
       = Some (tieContract\<lparr>progressPayload := 5, timeRemainingS := Some 0,
                             active := False, expired := False\<rparr>)
   \<and> activeContractId (processTick tieState 1) = None
   \<and> completedContractCount (processTick tieState 1) = 1
   \<and> highTierContractsCompleted (processTick tieState 1) = 1
   \<and> credits (resources (processTick tieState 1)) = 104.5
   \<and> fragments (resources (processTick tieState 1)) = 3"
proof -
  have h1: "activeContractId tieState = Some ''timed_contract''"
    by (simp add: tieState_def)
  have h2: "''timed_contract'' \<noteq> []"
    by simp
  have h3: "List.find (\<lambda>x. Some (cid x) = activeContractId tieState) (contracts tieState)
      = Some tieContract"
    by (simp add: tieState_def tieContract_def)
  have h4: "active tieContract" and h5: "timeRemainingS tieContract = Some 1"
    by (simp_all add: tieContract_def)
  have h6: "(1::real) - 1 \<le> 0"
    by simp
  have h7: "targetPayload tieContract \<le> progressPayload tieContract + totalPayloadThisTick tieState 1"
    by (simp add: tieState_payload tieContract_def)
  have rate: "calculateCreditRate tieState = 9 / 10"
    and ival: "calculateFragmentInterval tieState = 33"
    by (rule fresh_rates; simp add: tieState_def createInitialState_def)+
  have vals: "rewardCredits tieContract = 100" "rewardFragments tieContract = 3"
    "tier tieContract = high" "progressPayload tieContract = 0"
    "credits (resources tieState) = 0" "fragments (resources tieState) = 0"
    "tickCount tieState = 0" "completedContractCount tieState = 0"
    "highTierContractsCompleted tieState = 0"
    by (simp_all add: tieContract_def tieState_def createInitialState_def)
  from tie_resolves_to_completion [OF h1 h2 h3 h4 h5 h6 h7] h1 h2 h3 h4 h5 h6 h7
  show ?thesis
    by (simp add: tieState_payload rate ival vals)
qed
section \<open>Prestige reward\<close>

lemma floor_fourth_root:
  fixes x :: real
  assumes "real n ^ 4 \<le> x" "x < (real n + 1) ^ 4"
  shows "\<lfloor>x powr 0.25\<rfloor> = int n"
proof -
  have x0: "0 \<le> x"
    using assms(1) by (meson order_trans zero_le_power of_nat_0_le_iff)
  have q: "(0.25 :: real) = 1 / real 4"
    by simp
  have r: "x powr 0.25 = root 4 x"
  proof (cases "x = 0")
    case True
    then show ?thesis by simp
  next
    case False
    with x0 have "0 < x" by simp
    then show ?thesis
      unfolding q by (simp add: root_powr_inverse)
  qed
  have lo: "real n \<le> root 4 x"
  proof -
    have "root 4 (real n ^ 4) \<le> root 4 x"
      using assms(1) by simp
    then show ?thesis
      by (simp add: real_root_power_cancel)
  qed
  have hi: "root 4 x < real n + 1"
  proof -
    have "root 4 x < root 4 ((real n + 1) ^ 4)"
      using assms(2) by simp
    then show ?thesis
      by (simp add: real_root_power_cancel)
  qed
  show ?thesis
    unfolding r using lo hi by (intro floor_unique) simp_all
qed

text \<open>
  Claim C4, as stated, fails: with lifetime output 5000, one completed contract, one of them
  high-tier, and one protocol used, the code returns 9 where the stated formula gives 9.75.
\<close>

theorem reputation_gain_not_spec_formula:
  "real_of_int (calculateReputationGain rewardState) \<noteq> specReward rewardState"
proof -
  have "\<lfloor>(5000 :: real) powr 0.25\<rfloor> = int 8"
    by (rule floor_fourth_root) simp_all
  then have f: "\<lfloor>(5000 :: real) powr (1 / 4)\<rfloor> = 8"
    by simp
  have "calculateReputationGain rewardState = 9"
    by (simp add: calculateReputationGain_def rewardState_def createInitialState_def f)
  moreover have "specReward rewardState = 39 / 4"
    by (simp add: specReward_def specRewardSum_def rewardState_def createInitialState_def f)
  ultimately show ?thesis by simp
qed

text \<open>
  Claim C4, amended. The reward preview is
  floor(max(0, lifetimeOutput) ^ 0.25) + floor(highTierCompleted * 0.5 + totalCompleted * 0.25)
  + distinctProtocolsUsedThisRun, floored at a minimum of 1: the contract term is rounded
  down, so the reward is a whole number. It is always at least 1, and for a non-negative
  lifetime output it is the stated sum rounded down and then floored at 1, hence never more
  than the stated formula.
\<close>

theorem reputation_gain_formula:
  "calculateReputationGain s
     = max 1 (\<lfloor>(max 0 (totalPayloadProduced (stats s))) powr 0.25\<rfloor>
              + \<lfloor>real (highTierContractsCompleted s) * 0.5 + real (completedContractCount s) * 0.25\<rfloor>
              + int (card (protocolsUsed s)))
   \<and> 1 \<le> calculateReputationGain s
   \<and> (0 \<le> totalPayloadProduced (stats s) \<longrightarrow>
        calculateReputationGain s = max 1 \<lfloor>specRewardSum s\<rfloor>
        \<and> real_of_int (calculateReputationGain s) \<le> specReward s)"
proof -
  let ?a = "\<lfloor>totalPayloadProduced (stats s) powr 0.25\<rfloor>"
  let ?x = "real (highTierContractsCompleted s) * 0.5 + real (completedContractCount s) * 0.25"
  let ?n = "card (protocolsUsed s)"
  have sum: "specRewardSum s = real_of_int ?a + ?x + real ?n"
    by (simp add: specRewardSum_def)
  have "\<lfloor>real_of_int ?a + ?x + real_of_int (int ?n)\<rfloor> = ?a + \<lfloor>?x\<rfloor> + int ?n"
    by linarith
  then have fl: "\<lfloor>specRewardSum s\<rfloor> = ?a + \<lfloor>?x\<rfloor> + int ?n"
    by (simp add: sum)
  have le: "real_of_int (max 1 \<lfloor>specRewardSum s\<rfloor>) \<le> specReward s"
    unfolding specReward_def by (simp add: max_def)
  show ?thesis
    using fl le by (simp add: calculateReputationGain_def Let_def)
qed

theorem reputation_gain_formula_witness:
  "(0 :: real) \<le> totalPayloadProduced (stats rewardState)
   \<and> calculateReputationGain rewardState = 9
   \<and> max 1 \<lfloor>specRewardSum rewardState\<rfloor> = 9
   \<and> real_of_int (calculateReputationGain rewardState) \<le> specReward rewardState"
proof -
  have "\<lfloor>(5000 :: real) powr 0.25\<rfloor> = int 8"
    by (rule floor_fourth_root) simp_all
  then have f: "\<lfloor>(5000 :: real) powr (1 / 4)\<rfloor> = 8"
    by simp
  have v: "calculateReputationGain rewardState = 9"
    by (simp add: calculateReputationGain_def rewardState_def createInitialState_def f)
  have p: "(0 :: real) \<le> totalPayloadProduced (stats rewardState)"
    by (simp add: rewardState_def createInitialState_def)
  from reputation_gain_formula [of rewardState] p v show ?thesis
    by simp
qed

section \<open>Prestige reset\<close>

lemma calculateReputationGain_ge1: "1 \<le> calculateReputationGain s"
  by (simp add: calculateReputationGain_def Let_def)

text \<open>
  Claim C6. applyPrestige returns a state whose resource pool, module levels, upgrade levels,
  contract board, active pointer, statistics, counters and active protocol are those of a
  freshly created state, whose protocols-used set holds only the starting protocol, whose
  lanes are 1 + (head-start perk level) fresh lanes numbered from 0, and whose meta progress
  is that of the input with prestigeCount incremented by 1, totalReputation increased by the
  computed reward (so it grows), and spentReputation and the perk levels unchanged.
\<close>

theorem applyPrestige_reset_scope:
  "resources (applyPrestige now s) = resources (createInitialState now)
   \<and> modules (applyPrestige now s) = modules (createInitialState now)
   \<and> upgradesPurchased (applyPrestige now s) = upgradesPurchased (createInitialState now)
   \<and> contracts (applyPrestige now s) = contracts (createInitialState now)
   \<and> contracts (applyPrestige now s) = []
   \<and> activeContractId (applyPrestige now s) = None
   \<and> stats (applyPrestige now s) = stats (createInitialState now)
   \<and> completedContractCount (applyPrestige now s) = 0
   \<and> highTierContractsCompleted (applyPrestige now s) = 0
   \<and> tickCount (applyPrestige now s) = 0
   \<and> activeProtocol (applyPrestige now s) = burst
   \<and> protocolsUsed (applyPrestige now s) = {burst}
   \<and> protocolsUsed (applyPrestige now s) = protocolsUsed (createInitialState now)
   \<and> lanes (applyPrestige now s)
       = map createLane [0 ..< 1 + lookup0 (perks (meta s)) ''perk_head_start'']
   \<and> length (lanes (applyPrestige now s)) = 1 + lookup0 (perks (meta s)) ''perk_head_start''
   \<and> prestigeCount (meta (applyPrestige now s)) = prestigeCount (meta s) + 1
   \<and> totalReputation (meta (applyPrestige now s))
       = totalReputation (meta s) + calculateReputationGain s
   \<and> totalReputation (meta s) < totalReputation (meta (applyPrestige now s))
   \<and> spentReputation (meta (applyPrestige now s)) = spentReputation (meta s)
   \<and> perks (meta (applyPrestige now s)) = perks (meta s)"
  using calculateReputationGain_ge1 [of s]
  by (simp add: applyPrestige_def createInitialState_def Let_def)

section \<open>Offline replay\<close>

lemma offlineLoop_unfold:
  assumes "0 \<le> r"
  shows "offlineLoop c r k
       = (((\<lambda>x. processTick x 60) ^^ nat \<lfloor>r / 60\<rfloor>) c,
          r - 60 * real (nat \<lfloor>r / 60\<rfloor>),
          k + nat \<lfloor>r / 60\<rfloor>)"
  using assms
proof (induction c r k rule: offlineLoop.induct)
  case (1 current remaining ticks)
  show ?case
  proof (cases "60 \<le> remaining")
    case True
    have fl: "\<lfloor>(remaining - 60) / 60\<rfloor> = \<lfloor>remaining / 60\<rfloor> - 1"
    proof -
      have "\<lfloor>(remaining - 60) / 60\<rfloor> = \<lfloor>remaining / 60 - 1\<rfloor>"
        by (rule arg_cong [where f = floor]) (simp add: diff_divide_distrib)
      also have "\<dots> = \<lfloor>remaining / 60\<rfloor> - 1"
        by (rule floor_diff_one)
      finally show ?thesis .
    qed
    have pos: "1 \<le> \<lfloor>remaining / 60\<rfloor>"
      using True by (simp add: le_floor_iff)
    then have n: "nat \<lfloor>remaining / 60\<rfloor> = Suc (nat (\<lfloor>remaining / 60\<rfloor> - 1))"
      by linarith
    define m where "m = nat (\<lfloor>remaining / 60\<rfloor> - 1)"
    have n': "nat \<lfloor>remaining / 60\<rfloor> = Suc m"
      using n by (simp add: m_def)
    have "0 \<le> remaining - 60"
      using True by simp
    then have ih: "offlineLoop (processTick current 60) (remaining - 60) (ticks + 1)
        = (((\<lambda>x. processTick x 60) ^^ m) (processTick current 60),
           remaining - 60 - 60 * real m,
           ticks + 1 + m)"
      using "1.IH" [OF True] unfolding fl m_def by simp
    have "offlineLoop current remaining ticks
        = offlineLoop (processTick current 60) (remaining - 60) (ticks + 1)"
      using True by (subst offlineLoop.simps) simp
    also note ih
    finally have step: "offlineLoop current remaining ticks
        = (((\<lambda>x. processTick x 60) ^^ m) (processTick current 60),
           remaining - 60 - 60 * real m, ticks + 1 + m)" .
    have sw: "((\<lambda>x. processTick x 60) ^^ m) (processTick current 60)
        = processTick (((\<lambda>x. processTick x 60) ^^ m) current) 60"
      using funpow_swap1 [of "\<lambda>x. processTick x 60" m current] by simp
    note step
    also have "(((\<lambda>x. processTick x 60) ^^ m) (processTick current 60),
           remaining - 60 - 60 * real m, ticks + 1 + m)
        = (((\<lambda>x. processTick x 60) ^^ Suc m) current,
           remaining - 60 * real (Suc m), ticks + Suc m)"
      by (simp add: sw algebra_simps)
    finally show ?thesis
      unfolding n' .
  next
    case False
    with "1.prems" have "\<lfloor>remaining / 60\<rfloor> = 0"
      by (intro floor_unique) simp_all
    with False show ?thesis
      by (subst offlineLoop.simps) simp
  qed
qed

text \<open>
  Claim C8. processOfflineProgress computes the elapsed seconds as (now - lastTickTime) / 1000
  clamped to [0, cap], where cap is 8 hours plus 4 hours per level of the offline-cap perk;
  it applies processTick with a 60-second chunk once for every whole chunk of the elapsed
  time and then once more with the remainder when the remainder is positive; it stamps
  lastTickTime with now; and the summary reports the elapsed time, the number of calls, and
  the differences of lifetime payload, lifetime credits and fragments between the result
  and the input.
\<close>

theorem processOfflineProgress_replay:
  "(let cap = (8 + 4 * real (lookup0 (perks (meta s)) ''perk_offline_cap'')) * 3600;
        elapsed = min (max 0 ((now - lastTickTime s) / 1000)) cap;
        n = nat \<lfloor>elapsed / 60\<rfloor>;
        rest = elapsed - 60 * real n;
        chunked = ((\<lambda>x. processTick x 60) ^^ n) s;
        final = (if rest > 0 then processTick chunked rest else chunked);
        result = processOfflineProgress s now
    in 0 \<le> elapsed \<and> elapsed \<le> cap \<and> 0 \<le> rest \<and> rest < 60
       \<and> fst result = final\<lparr>lastTickTime := now\<rparr>
       \<and> elapsedSeconds (snd result) = elapsed
       \<and> ticksSimulated (snd result) = n + (if rest > 0 then 1 else 0)
       \<and> payloadEarned (snd result)
           = totalPayloadProduced (stats (fst result)) - totalPayloadProduced (stats s)
       \<and> creditsEarned (snd result)
           = totalCreditsEarned (stats (fst result)) - totalCreditsEarned (stats s)
       \<and> fragmentsEarned (snd result)
           = fragments (resources (fst result)) - fragments (resources s))"
proof -
  define cap where "cap = (8 + 4 * real (lookup0 (perks (meta s)) ''perk_offline_cap'')) * 3600"
  define elapsed where "elapsed = min (max 0 ((now - lastTickTime s) / 1000)) cap"
  define n where "n = nat \<lfloor>elapsed / 60\<rfloor>"
  define rest where "rest = elapsed - 60 * real n"
  have cap0: "0 \<le> cap"
    by (simp add: cap_def)
  then have e0: "0 \<le> elapsed"
    by (simp add: elapsed_def)
  have e1: "elapsed \<le> cap"
    by (simp add: elapsed_def)
  have "0 \<le> \<lfloor>elapsed / 60\<rfloor>"
    using e0 by simp
  then have rn: "real n = real_of_int \<lfloor>elapsed / 60\<rfloor>"
    by (simp add: n_def)
  have r0: "0 \<le> rest"
  proof -
    have "real_of_int \<lfloor>elapsed / 60\<rfloor> \<le> elapsed / 60"
      by (rule of_int_floor_le)
    then show ?thesis unfolding rest_def rn by linarith
  qed
  have r1: "rest < 60"
  proof -
    have "elapsed / 60 < real_of_int \<lfloor>elapsed / 60\<rfloor> + 1"
      by linarith
    then show ?thesis unfolding rest_def rn by linarith
  qed
  have capeq: "(8 + real (lookup0 (perks (meta s)) ''perk_offline_cap'') * 4) * 3600 = cap"
    by (simp add: cap_def)
  have loop: "offlineLoop s elapsed 0
      = (((\<lambda>x. processTick x 60) ^^ n) s, rest, n)"
    using offlineLoop_unfold [OF e0, of s 0] by (simp add: n_def rest_def)
  have res: "processOfflineProgress s now =
      (let c2 = (if rest > 0 then processTick (((\<lambda>x. processTick x 60) ^^ n) s) rest
                 else ((\<lambda>x. processTick x 60) ^^ n) s);
           c3 = c2\<lparr>lastTickTime := now\<rparr>
       in (c3, \<lparr>elapsedSeconds = elapsed,
                ticksSimulated = (if rest > 0 then n + 1 else n),
                payloadEarned = totalPayloadProduced (stats c3) - totalPayloadProduced (stats s),
                creditsEarned = totalCreditsEarned (stats c3) - totalCreditsEarned (stats s),
                fragmentsEarned = fragments (resources c3) - fragments (resources s)\<rparr>))"
    unfolding processOfflineProgress_def capeq Let_def elapsed_def [symmetric] loop
    by simp
  show ?thesis
    unfolding Let_def cap_def [symmetric] elapsed_def [symmetric] n_def [symmetric]
      rest_def [symmetric]
    using e0 e1 r0 r1 by (simp add: res Let_def)
qed

text \<open>
  Ninety seconds after the last tick of a fresh state: one 60-second chunk, then a
  30-second remainder.
\<close>

theorem processOfflineProgress_replay_witness:
  "fst (processOfflineProgress (createInitialState 0) 90000)
     = (processTick (processTick (createInitialState 0) 60) 30)\<lparr>lastTickTime := 90000\<rparr>
   \<and> elapsedSeconds (snd (processOfflineProgress (createInitialState 0) 90000)) = 90
   \<and> ticksSimulated (snd (processOfflineProgress (createInitialState 0) 90000)) = 2"
proof -
  have cap: "lookup0 (perks (meta (createInitialState 0))) ''perk_offline_cap'' = 0"
    and last: "lastTickTime (createInitialState 0) = 0"
    by (simp_all add: createInitialState_def lookup0_def)
  have n: "nat \<lfloor>(90 :: real) / 60\<rfloor> = 1"
    by simp
  from processOfflineProgress_replay [of "createInitialState 0" 90000]
  show ?thesis
    unfolding Let_def cap last by (simp add: n)
qed

section \<open>Board generation and protocol diversity\<close>

text \<open>
  Claim C7 at the input (resetCount, seed) = (0, 0), the board of a new game. The loop of
  buildContractBoard never skips a candidate: the board is always the first three entries of
  the hash-ordered candidates. At (0, 0) the candidates come in the protocol order
  burst, burst, burst, secure, ...: the second and the third duplicate the family of the
  first while candidates of fresh families follow, yet both are chosen, and the board shows
  one family only.
\<close>

theorem buildContractBoard_ignores_diversity:
  "buildContractBoard prestige seed
     = mapIndexed (instantiate seed) 0 (take 3 (shuffled prestige seed))
   \<and> map t_protocol (shuffled 0 0)
       = [burst, burst, burst, secure, secure, secure, burst, legacy, legacy]
   \<and> map protocol (buildContractBoard 0 0) = [burst, burst, burst]
   \<and> map cid (buildContractBoard 0 0)
       = [''tpl_burst_low_1_run0_0'', ''tpl_burst_low_2_run0_1'', ''tpl_burst_mid_1_run0_2'']"
  by (simp add: buildContractBoard_first_three [symmetric] shuffled_0_0 board_0_0_protocols
      board_0_0_ids)

section \<open>Single active contract\<close>

lemma digit_char_inj: "i < 10 \<Longrightarrow> j < 10 \<Longrightarrow> digit_char i = digit_char j \<Longrightarrow> i = j"
proof -
  assume ij: "i < 10" "j < 10" and eq: "digit_char i = digit_char j"
  have d: "distinct ''0123456789''"
    by simp
  have "''0123456789'' ! i = ''0123456789'' ! j"
    using eq ij by (simp add: digit_char_def)
  with d ij show "i = j"
    by (simp add: nth_eq_iff_index_eq)
qed

lemma instantiate_facts:
  "\<not> active (instantiate seed t i)"
  "cid (instantiate seed t i) \<noteq> []"
  "i < 10 \<Longrightarrow> last (cid (instantiate seed t i)) = digit_char i"
  by (simp_all add: instantiate_def show_nat.simps)

lemma instantiate_cid_neq:
  assumes "i < 10" "j < 10" "i \<noteq> j"
  shows "cid (instantiate seed a i) \<noteq> cid (instantiate seed b j)"
proof
  assume "cid (instantiate seed a i) = cid (instantiate seed b j)"
  then have "last (cid (instantiate seed a i)) = last (cid (instantiate seed b j))"
    by simp
  then have "digit_char i = digit_char j"
    using assms by (simp add: instantiate_facts(3))
  with assms show False
    by (auto dest: digit_char_inj)
qed

lemma mapIndexed_mem: "c \<in> set (mapIndexed f i xs) \<Longrightarrow> \<exists>x j. c = f x j"
  by (induction xs arbitrary: i) auto

lemma board_members:
  assumes "c \<in> set (buildContractBoard prestige seed)"
  shows "\<not> active c" and "cid c \<noteq> []"
proof -
  from assms obtain t j where "c = instantiate seed t j"
    unfolding buildContractBoard_def by (blast dest: mapIndexed_mem)
  then show "\<not> active c" and "cid c \<noteq> []"
    by (simp_all add: instantiate_facts)
qed

lemma board_distinct: "distinct (map cid (buildContractBoard prestige seed))"
proof (cases rule: take3_cases [of "shuffled prestige seed"])
  case 1
  then show ?thesis by (simp add: buildContractBoard_first_three)
next
  case (2 a)
  then show ?thesis by (simp add: buildContractBoard_first_three)
next
  case (3 a b)
  then show ?thesis
    by (simp add: buildContractBoard_first_three instantiate_cid_neq)
next
  case (4 a b c)
  then show ?thesis
    by (simp add: buildContractBoard_first_three instantiate_cid_neq)
qed

lemma boardInv_cong:
  "contracts s' = contracts s \<Longrightarrow> activeContractId s' = activeContractId s
   \<Longrightarrow> boardInv s' = boardInv s"
  by (simp add: boardInv_def)

lemma boardInv_empty: "contracts s = [] \<Longrightarrow> boardInv s"
  by (simp add: boardInv_def)

lemma boardInv_refresh: "boardInv (refreshContractBoard s)"
  by (auto simp: boardInv_def refreshContractBoard_def Let_def board_distinct
      dest: board_members)

lemma boardInv_truthy:
  assumes "boardInv s" "c \<in> set (contracts s)" "active c"
  shows "truthy (activeContractId s)"
  using assms by (auto simp: boardInv_def truthy_def)

lemma boardInv_activate:
  assumes inv: "boardInv s" and act: "activateContract s k = Some s'"
  shows "boardInv s'"
proof -
  let ?g = "\<lambda>c. if cid c = k then c\<lparr>active := True\<rparr> else c"
  from act have nt: "\<not> truthy (activeContractId s)"
    and s': "s' = s\<lparr>contracts := map ?g (contracts s), activeContractId := Some k\<rparr>"
    by (auto simp: activateContract_def split: option.splits if_splits)
  have idle: "\<not> active c" if "c \<in> set (contracts s)" for c
    using boardInv_truthy [OF inv that] nt by blast
  have ids: "cid \<circ> ?g = cid"
    by (auto simp: fun_eq_iff)
  have "distinct (map cid (contracts s'))"
    using inv unfolding s' by (simp add: ids boardInv_def)
  moreover have "\<forall>c \<in> set (contracts s'). cid c \<noteq> []"
    using inv unfolding s' by (auto simp: boardInv_def)
  moreover have "\<forall>c \<in> set (contracts s'). active c \<longrightarrow> activeContractId s' = Some (cid c)"
    using idle unfolding s' by (auto split: if_splits)
  ultimately show ?thesis
    by (simp add: boardInv_def)
qed

lemma replaceFirst_map:
  "List.find P xs = Some c \<Longrightarrow> f y = f c \<Longrightarrow> map f (replaceFirst P y xs) = map f xs"
  by (induction xs) (auto split: if_splits)

lemma replaceFirst_set:
  "distinct (map f xs) \<Longrightarrow> x \<in> set (replaceFirst (\<lambda>z. f z = a) y xs)
   \<Longrightarrow> x = y \<or> (x \<in> set xs \<and> f x \<noteq> a)"
proof (induction xs)
  case Nil
  then show ?case by simp
next
  case (Cons z zs)
  show ?case
  proof (cases "f z = a")
    case True
    with Cons.prems have "x = y \<or> x \<in> set zs"
      by simp
    moreover have "f x \<noteq> a" if "x \<in> set zs"
    proof
      assume "f x = a"
      with True that have "f z \<in> f ` set zs"
        by (metis imageI)
      with Cons.prems(1) show False
        by simp
    qed
    ultimately show ?thesis by auto
  next
    case False
    with Cons.prems have "x = z \<or> x \<in> set (replaceFirst (\<lambda>z. f z = a) y zs)"
      by simp
    with Cons.IH Cons.prems(1) False show ?thesis
      by auto
  qed
qed

lemma steps_active:
  "active (fst (completionStep (expiryStep d cs)))
   \<Longrightarrow> activeContractId (snd (completionStep (expiryStep d cs))) = activeContractId (snd cs)"
  by (cases cs) (auto simp: completionStep_def expiryStep_def Let_def split: option.splits if_splits)

lemma boardInv_contractProgress:
  assumes inv: "boardInv s"
  shows "boardInv (contractProgress p d s)"
proof (cases "activeContractId s")
  case None
  then show ?thesis using inv by (simp add: contractProgress_idle)
next
  case (Some a)
  show ?thesis
  proof (cases "List.find (\<lambda>c. cid c = a) (contracts s)")
    case None
    then show ?thesis using inv Some by (simp add: contractProgress_def)
  next
    case found: (Some c)
    show ?thesis
    proof (cases "truthy (activeContractId s) \<and> active c")
      case False
      then show ?thesis using inv Some found by (auto simp: contractProgress_def)
    next
      case True
      define cs where "cs = completionStep (expiryStep d
          (c\<lparr>progressPayload := progressPayload c + p\<rparr>, s))"
      let ?new = "replaceFirst (\<lambda>z. cid z = a) (fst cs) (contracts s)"
      have res: "contractProgress p d s = (snd cs)\<lparr>contracts := ?new\<rparr>"
        using True Some found by (simp add: contractProgress_def cs_def case_prod_beta)
      have cid': "cid (fst cs) = cid c"
        by (simp add: cs_def completionStep_frame expiryStep_contract)
      have cidc: "cid c = a"
        using found by (auto dest: find_Some_iff [THEN iffD1])
      have act': "active (fst cs) \<Longrightarrow> activeContractId (snd cs) = Some a"
        unfolding cs_def using steps_active [of d "(c\<lparr>progressPayload := progressPayload c + p\<rparr>, s)"]
        by (simp add: Some)
      have ids: "map cid ?new = map cid (contracts s)"
        using found cid' by (rule replaceFirst_map)
      have d: "distinct (map cid (contracts s))"
        using inv by (simp add: boardInv_def)
      have other: "x = fst cs \<or> (x \<in> set (contracts s) \<and> cid x \<noteq> a)" if "x \<in> set ?new" for x
        using replaceFirst_set [OF d that] .
      have old: "active x \<Longrightarrow> cid x = a" if "x \<in> set (contracts s)" for x
        using inv that Some by (auto simp: boardInv_def)
      have "distinct (map cid (contracts (contractProgress p d s)))"
        unfolding res using d by (simp add: ids)
      moreover have "\<forall>x \<in> set (contracts (contractProgress p d s)). cid x \<noteq> []"
      proof
        fix x
        assume "x \<in> set (contracts (contractProgress p d s))"
        then have "x \<in> set ?new"
          by (simp add: res)
        then have "cid x \<in> set (map cid ?new)"
          by simp
        then have "cid x \<in> set (map cid (contracts s))"
          by (simp only: ids)
        then show "cid x \<noteq> []"
          using inv by (auto simp: boardInv_def)
      qed
      moreover have "\<forall>x \<in> set (contracts (contractProgress p d s)).
          active x \<longrightarrow> activeContractId (contractProgress p d s) = Some (cid x)"
      proof (intro ballI impI)
        fix x
        assume x: "x \<in> set (contracts (contractProgress p d s))" and ax: "active x"
        from x have "x \<in> set ?new"
          by (simp add: res)
        from other [OF this] old ax have "x = fst cs"
          by blast
        with ax act' cid' cidc show "activeContractId (contractProgress p d s) = Some (cid x)"
          by (simp add: res)
      qed
      ultimately show ?thesis
        by (simp add: boardInv_def)
    qed
  qed
qed

lemma boardInv_processTick:
  assumes "boardInv s"
  shows "boardInv (processTick s d)"
proof -
  let ?s4 = "fragmentDrop (calculateFragmentInterval s) (accumulate s d)"
  have "boardInv ?s4"
    using assms by (simp add: boardInv_cong [of ?s4 s] fragmentDrop_frame accumulate_frame)
  then have "boardInv (contractProgress (totalPayloadThisTick s d) d ?s4)"
    by (rule boardInv_contractProgress)
  then show ?thesis
    unfolding processTick_def
    by (simp add: boardInv_cong [of "prestigeReadiness _"] prestigeReadiness_frame)
qed

lemma reachable_boardInv: "reachable s \<Longrightarrow> boardInv s"
proof (induction rule: reachable.induct)
  case (r_init now)
  show ?case by (simp add: boardInv_empty createInitialState_def)
next
  case (r_tick s d)
  then show ?case by (simp add: boardInv_processTick)
next
  case (r_refresh s)
  show ?case by (rule boardInv_refresh)
next
  case (r_activate s c s')
  then show ?case by (blast intro: boardInv_activate)
next
  case (r_reset s now)
  show ?case by (simp add: boardInv_empty applyPrestige_def createInitialState_def Let_def)
qed

lemma filter_key_le1: "distinct (map f xs) \<Longrightarrow> length (filter (\<lambda>x. f x = a) xs) \<le> 1"
  by (induction xs) (auto simp: filter_empty_conv image_iff)

lemma boardInv_at_most_one:
  assumes "boardInv s"
  shows "length (filter active (contracts s)) \<le> 1"
proof (cases "activeContractId s")
  case None
  with assms have "filter active (contracts s) = []"
    by (auto simp: boardInv_def filter_empty_conv)
  then show ?thesis by simp
next
  case (Some a)
  with assms have "filter active (contracts s)
      = filter active (filter (\<lambda>x. cid x = a) (contracts s))"
    by (auto simp: boardInv_def intro!: filter_cong)
  also have "length \<dots> \<le> length (filter (\<lambda>x. cid x = a) (contracts s))"
    by (rule length_filter_le)
  also have "\<dots> \<le> 1"
    using assms by (intro filter_key_le1) (simp add: boardInv_def)
  finally show ?thesis .
qed

lemma activate_while_active:
  assumes "boardInv s" "c \<in> set (contracts s)" "active c"
  shows "activateContract s k = None"
  using boardInv_truthy [OF assms]
  by (simp add: activateContract_def split: option.splits)

text \<open>
  Claim C2. In every state reachable from the initial state by ticks, board refreshes,
  successful activations and prestige resets, at most one contract on the board has active
  status, any contract with active status is the one the active pointer names, and
  activateContract on a state with a contract of active status returns the no-op result
  for every contract id.
\<close>

theorem single_active_invariant:
  assumes "reachable s"
  shows "length (filter active (contracts s)) \<le> 1
       \<and> (\<forall>c \<in> set (contracts s). active c \<longrightarrow> activeContractId s = Some (cid c))
       \<and> ((\<exists>c \<in> set (contracts s). active c) \<longrightarrow> activateContract s k = None)"
proof -
  have inv: "boardInv s"
    using assms by (rule reachable_boardInv)
  have "length (filter active (contracts s)) \<le> 1"
    using inv by (rule boardInv_at_most_one)
  moreover have "\<forall>c \<in> set (contracts s). active c \<longrightarrow> activeContractId s = Some (cid c)"
    using inv by (simp add: boardInv_def)
  moreover have "(\<exists>c \<in> set (contracts s). active c) \<longrightarrow> activateContract s k = None"
    using inv by (blast intro: activate_while_active)
  ultimately show ?thesis by simp
qed

lemma board_members_fresh:
  assumes "c \<in> set (buildContractBoard prestige seed)"
  shows "\<not> expired c" and "progressPayload c = 0"
proof -
  from assms obtain t j where "c = instantiate seed t j"
    unfolding buildContractBoard_def by (blast dest: mapIndexed_mem)
  then show "\<not> expired c" and "progressPayload c = 0"
    by (simp_all add: instantiate_def)
qed

lemma new_game_board:
  "contracts (refreshContractBoard (createInitialState 0)) = buildContractBoard 0 0"
  "activeContractId (refreshContractBoard (createInitialState 0)) = None"
  by (simp_all add: refreshContractBoard_def createInitialState_def Let_def)

lemma acceptedState_eq:
  shows "activateContract (refreshContractBoard (createInitialState 0)) ''tpl_burst_low_1_run0_0''
     = Some acceptedState"
    and "\<exists>c \<in> set (contracts acceptedState). active c"
    and "activeContractId acceptedState = Some ''tpl_burst_low_1_run0_0''"
proof -
  let ?k = "''tpl_burst_low_1_run0_0''"
  let ?s = "refreshContractBoard (createInitialState 0)"
  let ?g = "\<lambda>c. if cid c = ?k then c\<lparr>active := True\<rparr> else c"
  from board_0_0_ids obtain c0 c1 c2 where b: "buildContractBoard 0 0 = [c0, c1, c2]"
    and k: "cid c0 = ?k"
    by (auto simp: map_eq_Cons_conv)
  have mem: "c0 \<in> set (buildContractBoard 0 0)"
    by (simp add: b)
  have f: "List.find (\<lambda>c. cid c = ?k) (contracts ?s) = Some c0"
    by (simp add: new_game_board b k)
  have fresh: "\<not> active c0" "\<not> expired c0" "progressPayload c0 = 0"
    using board_members [OF mem] board_members_fresh [OF mem] by simp_all
  have act: "activateContract ?s ?k
      = Some (?s\<lparr>contracts := map ?g (contracts ?s), activeContractId := Some ?k\<rparr>)"
    unfolding activateContract_def f
    by (simp add: fresh new_game_board truthy_def)
  then have eq: "acceptedState
      = ?s\<lparr>contracts := map ?g (contracts ?s), activeContractId := Some ?k\<rparr>"
    by (simp add: acceptedState_def)
  show "activateContract ?s ?k = Some acceptedState"
    by (simp only: act eq)
  show "\<exists>c \<in> set (contracts acceptedState). active c"
    unfolding eq by (simp add: new_game_board b k)
  show "activeContractId acceptedState = Some ?k"
    unfolding eq by simp
qed

text \<open>
  A new game whose board was generated and whose first contract was accepted: the state is
  reachable, one contract is active, and accepting the second contract is refused.
\<close>

theorem single_active_invariant_witness:
  "reachable acceptedState
   \<and> length (filter active (contracts acceptedState)) \<le> 1
   \<and> (\<exists>c \<in> set (contracts acceptedState). active c)
   \<and> activeContractId acceptedState = Some ''tpl_burst_low_1_run0_0''
   \<and> activateContract acceptedState ''tpl_burst_low_2_run0_1'' = None"
proof -
  have r: "reachable acceptedState"
    by (rule r_activate [OF r_refresh [OF r_init] acceptedState_eq(1)])
  from single_active_invariant [OF r, of "''tpl_burst_low_2_run0_1''"] r acceptedState_eq(2,3)
  show ?thesis
    by simp
qed

section \<open>Step counter, elapsed time and the independent copy\<close>

lemma laneLoop_map:
  assumes "\<And>l. g (fst (f l)) = g l"
  shows "map g (fst (laneLoop f ls acc)) = map g ls"
  using assms
  by (induction ls arbitrary: acc) (auto simp: case_prod_beta)

lemma runLanes_untouched:
  "map lane_id (fst (runLanes s d)) = map lane_id (lanes s)"
  "map enabledModules (fst (runLanes s d)) = map enabledModules (lanes s)"
  by (simp_all add: runLanes_def Let_def laneLoop_map processLane_def)

lemma steps_untouched:
  fixes c :: ContractState and d :: real and p :: real and s :: GameState
  defines "c' \<equiv> fst (completionStep (expiryStep d (c\<lparr>progressPayload := p\<rparr>, s)))"
  shows "cid c' = cid c" "cname c' = cname c" "description c' = description c"
    "protocol c' = protocol c" "targetPayload c' = targetPayload c"
    "timeLimitSec c' = timeLimitSec c" "rewardCredits c' = rewardCredits c"
    "rewardFragments c' = rewardFragments c" "tier c' = tier c"
  by (simp_all add: c'_def completionStep_def expiryStep_def Let_def case_prod_beta
      split: option.splits)

lemma contractProgress_untouched:
  "map (\<lambda>c. (cid c, cname c, description c, protocol c, targetPayload c, timeLimitSec c,
              rewardCredits c, rewardFragments c, tier c)) (contracts (contractProgress p d s))
   = map (\<lambda>c. (cid c, cname c, description c, protocol c, targetPayload c, timeLimitSec c,
              rewardCredits c, rewardFragments c, tier c)) (contracts s)"
  by (auto simp: contractProgress_def case_prod_beta expiryStep_frame completionStep_frame
      steps_untouched expiryStep_contract intro!: replaceFirst_map split: option.splits)

lemma processTick_untouched:
  "scrap (resources (processTick s d)) = scrap (resources s)"
  "map lane_id (lanes (processTick s d)) = map lane_id (lanes s)"
  "map enabledModules (lanes (processTick s d)) = map enabledModules (lanes s)"
  "map (\<lambda>c. (cid c, cname c, description c, protocol c, targetPayload c, timeLimitSec c,
              rewardCredits c, rewardFragments c, tier c)) (contracts (processTick s d))
   = map (\<lambda>c. (cid c, cname c, description c, protocol c, targetPayload c, timeLimitSec c,
              rewardCredits c, rewardFragments c, tier c)) (contracts s)"
  by (simp_all add: processTick_def prestigeReadiness_frame contractProgress_frame
      contractProgress_untouched fragmentDrop_frame fragmentDrop_fields accumulate_fields
      accumulate_frame runLanes_untouched)

text \<open>
  Claim C9, as stated, fails: one call with deltaSeconds = 60 on the initial state advances
  the step counter by 1, not by 60.
\<close>

theorem tickCount_not_incremented_by_delta:
  "real (tickCount (processTick (createInitialState 0) 60))
     \<noteq> real (tickCount (createInitialState 0)) + 60"
  by (simp add: processTick_counters createInitialState_def)

text \<open>
  Claim C9, amended in the step counter only. For every store \<open>h\<close>, every address \<open>a\<close> at
  which a state \<open>s\<close> is stored and every deltaSeconds \<open>d\<close>, processTick returns the address
  \<open>a'\<close> of a state \<open>s'\<close> that is an independent copy: no object or array that \<open>s'\<close> is made
  of is one that the input is made of, or one that existed before the call at all (no
  aliasing), and the input is left unmodified, as is every other object that existed before
  the call. The step counter of \<open>s'\<close> is that of \<open>s\<close> incremented by exactly 1, whatever
  \<open>d\<close> is, and its elapsed-time statistic is that of \<open>s\<close> incremented by \<open>d\<close>. It is a
  copy of \<open>s\<close>: everything the tick never assigns (version, timestamp, scrap, module levels,
  protocol, upgrade levels, protocols-used set, meta progress, the lanes' ids and module
  lists, the contracts' terms) is as in \<open>s\<close>.
\<close>

theorem processTick_independent_copy:
  assumes "read_state h a = Some s"
  shows "\<exists>h' a' s'.
      processTick_h h a d = Some (h', a')
    \<and> read_state h' a' = Some s'
    \<and> reach_state h' a' \<inter> reach_state h' a = {}
    \<and> reach_state h' a' \<inter> {..< length h} = {}
    \<and> read_state h' a = Some s
    \<and> take (length h) h' = h
    \<and> tickCount s' = tickCount s + 1
    \<and> playtimeSec (stats s') = playtimeSec (stats s) + d
    \<and> version s' = version s
    \<and> lastTickTime s' = lastTickTime s
    \<and> scrap (resources s') = scrap (resources s)
    \<and> modules s' = modules s
    \<and> activeProtocol s' = activeProtocol s
    \<and> upgradesPurchased s' = upgradesPurchased s
    \<and> protocolsUsed s' = protocolsUsed s
    \<and> meta s' = meta s
    \<and> map lane_id (lanes s') = map lane_id (lanes s)
    \<and> map enabledModules (lanes s') = map enabledModules (lanes s)
    \<and> map (\<lambda>c. (cid c, cname c, description c, protocol c, targetPayload c, timeLimitSec c,
                 rewardCredits c, rewardFragments c, tier c)) (contracts s')
      = map (\<lambda>c. (cid c, cname c, description c, protocol c, targetPayload c, timeLimitSec c,
                 rewardCredits c, rewardFragments c, tier c)) (contracts s)"
proof -
  from processTick_h_effect [OF assms, of d] obtain h'
    where run: "processTick_h h a d = Some (h', length h)"
      and old: "take (length h) h' = h" "read_state h' a = Some s"
      and new: "read_state h' (length h) = Some (processTick s d)"
      and fresh: "reach_state h' (length h) \<inter> {..< length h} = {}"
      and inp: "reach_state h' a \<subseteq> {..< length h}"
    by blast
  from fresh inp have apart: "reach_state h' (length h) \<inter> reach_state h' a = {}"
    by blast
  show ?thesis
    apply (rule exI [of _ h'])
    apply (rule exI [of _ "length h"])
    apply (rule exI [of _ "processTick s d"])
    apply (simp only: run new old apart fresh processTick_counters(1,2) processTick_frame
        processTick_untouched)
    done
qed

text \<open>
  The initial state, laid out in an empty store at address 0, and a 60-second tick.
\<close>

theorem processTick_independent_copy_witness:
  "read_state (layout_objs 0 (createInitialState 0)) 0 = Some (createInitialState 0)
   \<and> (\<exists>h' a' s'.
      processTick_h (layout_objs 0 (createInitialState 0)) 0 60 = Some (h', a')
    \<and> read_state h' a' = Some s'
    \<and> reach_state h' a' \<inter> reach_state h' 0 = {}
    \<and> read_state h' 0 = Some (createInitialState 0)
    \<and> tickCount s' = 1
    \<and> playtimeSec (stats s') = 60)"
proof -
  have rd: "read_state (layout_objs 0 (createInitialState 0)) 0 = Some (createInitialState 0)"
    using read_clone [of "[]" "createInitialState 0"] by simp
  from processTick_independent_copy [OF rd, of 60] obtain h' a' s'
    where "processTick_h (layout_objs 0 (createInitialState 0)) 0 60 = Some (h', a')"
      "read_state h' a' = Some s'"
      "reach_state h' a' \<inter> reach_state h' 0 = {}"
      "read_state h' 0 = Some (createInitialState 0)"
      "tickCount s' = tickCount (createInitialState 0) + 1"
      "playtimeSec (stats s') = playtimeSec (stats (createInitialState 0)) + 60"
    by blast
  then show ?thesis
    using rd by (auto simp: createInitialState_def)
qed

section \<open>Determinism of the tick\<close>

text \<open>
  Claim C1. The body of processTick calls no clock and no random source, so the model has no
  such input; what the function has access to besides its two arguments is the store of
  objects. For every deltaSeconds \<open>d\<close> and every two stores and addresses at which the same
  state \<open>s\<close> is stored, the two invocations return, and the states they return have the same
  value (the same serialized output), whatever else the stores hold and whichever addresses
  are involved; so has a second invocation on the same object, made in the store that the
  first one left behind. That value is processTick s d, a function of \<open>s\<close> and \<open>d\<close> alone.
\<close>

theorem processTick_h_deterministic:
  assumes "read_state h1 a1 = Some s" and "read_state h2 a2 = Some s"
  shows "\<exists>h1' r1 h2' r2 h3' r3 out.
      processTick_h h1 a1 d = Some (h1', r1)
    \<and> processTick_h h2 a2 d = Some (h2', r2)
    \<and> processTick_h h1' a1 d = Some (h3', r3)
    \<and> read_state h1' r1 = Some out
    \<and> read_state h2' r2 = Some out
    \<and> read_state h3' r3 = Some out
    \<and> out = processTick s d"
proof -
  from processTick_h_effect [OF assms(1), of d] obtain h1'
    where run1: "processTick_h h1 a1 d = Some (h1', length h1)"
      and old1: "read_state h1' a1 = Some s"
      and new1: "read_state h1' (length h1) = Some (processTick s d)"
    by blast
  from processTick_h_effect [OF assms(2), of d] obtain h2'
    where run2: "processTick_h h2 a2 d = Some (h2', length h2)"
      and new2: "read_state h2' (length h2) = Some (processTick s d)"
    by blast
  from processTick_h_effect [OF old1, of d] obtain h3'
    where run3: "processTick_h h1' a1 d = Some (h3', length h1')"
      and new3: "read_state h3' (length h1') = Some (processTick s d)"
    by blast
  from run1 run2 run3 new1 new2 new3 show ?thesis
    by blast
qed

text \<open>
  The initial state stored twice, at address 0 of an otherwise empty store and at address 1
  behind an unrelated object, and a 60-second tick.
\<close>

theorem processTick_h_deterministic_witness:
  "read_state (layout_objs 0 (createInitialState 5)) 0 = Some (createInitialState 5)
   \<and> read_state (OSet {} # layout_objs 1 (createInitialState 5)) 1 = Some (createInitialState 5)
   \<and> (\<exists>h1' r1 h2' r2 h3' r3 out.
        processTick_h (layout_objs 0 (createInitialState 5)) 0 60 = Some (h1', r1)
      \<and> processTick_h (OSet {} # layout_objs 1 (createInitialState 5)) 1 60 = Some (h2', r2)
      \<and> processTick_h h1' 0 60 = Some (h3', r3)
      \<and> read_state h1' r1 = Some out
      \<and> read_state h2' r2 = Some out
      \<and> read_state h3' r3 = Some out
      \<and> out = processTick (createInitialState 5) 60)"
proof -
  have rd1: "read_state (layout_objs 0 (createInitialState 5)) 0 = Some (createInitialState 5)"
    using read_clone [of "[]" "createInitialState 5"] by simp
  have rd2: "read_state (OSet {} # layout_objs 1 (createInitialState 5)) 1
           = Some (createInitialState 5)"
    using read_clone [of "[OSet {}]" "createInitialState 5"] by simp
  show ?thesis
    using processTick_h_deterministic [OF rd1 rd2, of 60] rd1 rd2 by simp
qed


end
